theory Spec2Isabelle
  imports Complex_Main "HOL-Library.Multiset"
begin

section \<open>JavaScript values used by the sources\<close>

text \<open>
  Strings are modelled as \<^typ>\<open>string\<close>, one \<^typ>\<open>char\<close> per code unit, so the model
  covers the strings whose code units are below 256. Searching, splitting and
  \<open>parseInt\<close> follow the JavaScript on all of them. Case conversion follows it on
  ASCII text (code units below 128), which is what coordinates are made of, and a
  result of \<open>String.fromCharCode\<close> is right when it is below 256.

  Numbers that are integers are modelled as \<^typ>\<open>int option\<close>, where \<open>None\<close> is
  \<open>NaN\<close>; the values are exact as long as they stay below \<open>2 ^ 53\<close> in size.
  An indexing expression \<open>s[i]\<close> is a \<^typ>\<open>char option\<close>, where \<open>None\<close> is
  \<open>undefined\<close>. An exception is the left summand of a result.
\<close>

datatype error = TypeError | RangeError | SyntaxError

type_synonym jsnum = "int option"

definition code :: "char \<Rightarrow> nat" where
  "code c = of_char c"

definition fromCode :: "nat \<Rightarrow> char" where
  "fromCode n = char_of n"

text \<open>\<open>s[i]\<close> and \<open>s.charCodeAt(i)\<close>.\<close>

definition charAt :: "string \<Rightarrow> nat \<Rightarrow> char option" where
  "charAt s i = (if i < length s then Some (s ! i) else None)"

definition charCodeAt :: "string \<Rightarrow> nat \<Rightarrow> jsnum" where
  "charCodeAt s i = (if i < length s then Some (int (code (s ! i))) else None)"

text \<open>\<open>String.fromCharCode(n)\<close>: \<open>NaN\<close> becomes code unit 0, any other number is
  taken modulo \<open>2 ^ 16\<close>.\<close>

definition fromCharCode :: "jsnum \<Rightarrow> string" where
  "fromCharCode n = (case n of None \<Rightarrow> [fromCode 0] | Some k \<Rightarrow> [fromCode (nat (k mod 65536))])"

definition toUpperChar :: "char \<Rightarrow> char" where
  "toUpperChar c = (if 97 \<le> code c \<and> code c \<le> 122 then fromCode (code c - 32) else c)"

definition toLowerChar :: "char \<Rightarrow> char" where
  "toLowerChar c = (if 65 \<le> code c \<and> code c \<le> 90 then fromCode (code c + 32) else c)"

definition toUpperCase :: "string \<Rightarrow> string" where
  "toUpperCase s = map toUpperChar s"

definition toLowerCase :: "string \<Rightarrow> string" where
  "toLowerCase s = map toLowerChar s"

text \<open>\<open>n.toString()\<close> for an integer, and for \<open>NaN\<close>.\<close>

fun natToString :: "nat \<Rightarrow> string" where
  "natToString n =
     (if n < 10 then [fromCode (48 + n)]
      else natToString (n div 10) @ [fromCode (48 + n mod 10)])"

definition intToString :: "int \<Rightarrow> string" where
  "intToString k = (if k < 0 then CHR ''-'' # natToString (nat (- k)) else natToString (nat k))"

definition numToString :: "jsnum \<Rightarrow> string" where
  "numToString n = (case n of None \<Rightarrow> ''NaN'' | Some k \<Rightarrow> intToString k)"

text \<open>\<open>parseInt(s, 10)\<close>: leading white space is skipped, then an optional sign, then
  the longest run of decimal digits is read; without a digit the result is \<open>NaN\<close>.\<close>

definition isWhiteSpace :: "char \<Rightarrow> bool" where
  "isWhiteSpace c = (code c \<in> {9, 10, 11, 12, 13, 32, 160})"

definition isDigit :: "char \<Rightarrow> bool" where
  "isDigit c = (48 \<le> code c \<and> code c \<le> 57)"

definition digitsValue :: "string \<Rightarrow> nat" where
  "digitsValue ds = foldl (\<lambda>a c. 10 * a + (code c - 48)) 0 ds"

definition parseInt :: "string \<Rightarrow> jsnum" where
  "parseInt s =
     (let t = dropWhile isWhiteSpace s;
          neg = (case t of [] \<Rightarrow> False | c # _ \<Rightarrow> c = CHR ''-'');
          u = (case t of [] \<Rightarrow> [] | c # r \<Rightarrow> if c = CHR ''-'' \<or> c = CHR ''+'' then r else t);
          ds = takeWhile isDigit u
      in if ds = [] then None
         else Some (if neg then - int (digitsValue ds) else int (digitsValue ds)))"

section \<open>Coordinate conversion (sgfconv.js)\<close>

text \<open>\<open>nextChar\<close> and \<open>prevChar\<close> move a one-character string by one code unit.\<close>

definition nextChar :: "char \<Rightarrow> string" where
  "nextChar c = fromCharCode (Some (int (code c) + 1))"

definition prevChar :: "char \<Rightarrow> string" where
  "prevChar c = fromCharCode (Some (int (code c) - 1))"

text \<open>The comparison \<open>v[0] >= 'I'\<close> of a one-character string (or \<open>undefined\<close>, for
  which every comparison is false) with a one-character literal.\<close>

definition geChar :: "char option \<Rightarrow> char \<Rightarrow> bool" where
  "geChar x c = (case x of None \<Rightarrow> False | Some d \<Rightarrow> code c \<le> code d)"

text \<open>String concatenation \<open>v[0] + t\<close> where \<open>v[0]\<close> may be \<open>undefined\<close>.\<close>

definition charOrUndefined :: "char option \<Rightarrow> string" where
  "charOrUndefined x = (case x of None \<Rightarrow> ''undefined'' | Some d \<Rightarrow> [d])"

definition iaToJ1 :: "string \<Rightarrow> string" where
  "iaToJ1 val =
     (let v = toUpperCase val in
      if geChar (charAt v 0) CHR ''I''
      then nextChar (the (charAt v 0)) @ numToString (map_option (\<lambda>k. k - 64) (charCodeAt v 1))
      else charOrUndefined (charAt v 0) @ numToString (map_option (\<lambda>k. k - 64) (charCodeAt v 1)))"

definition iaToJ19 :: "string \<Rightarrow> string" where
  "iaToJ19 val =
     (let v = toUpperCase val in
      if geChar (charAt v 0) CHR ''I''
      then nextChar (the (charAt v 0)) @ numToString (map_option (\<lambda>k. 84 - k) (charCodeAt v 1))
      else charOrUndefined (charAt v 0) @ numToString (map_option (\<lambda>k. 84 - k) (charCodeAt v 1)))"

text \<open>\<open>iaFromJ1\<close> calls \<open>v[0].toLowerCase()\<close>, which raises a \<open>TypeError\<close> when
  \<open>v\<close> is empty.\<close>

definition iaFromJ1 :: "string \<Rightarrow> error + string" where
  "iaFromJ1 v =
     (case charAt v 0 of
        None \<Rightarrow> Inl TypeError
      | Some c \<Rightarrow>
          if geChar (Some c) CHR ''J''
          then Inr (prevChar (toLowerChar c) @ fromCharCode (map_option (\<lambda>k. k + 96) (parseInt (drop 1 v))))
          else Inr ([toLowerChar c] @ fromCharCode (map_option (\<lambda>k. k + 96) (parseInt (drop 1 v)))))"


section \<open>Strings, arrays and regular expressions\<close>

text \<open>\<open>s.split(sep)\<close> for a one-character separator; the empty string splits into
  one empty piece.\<close>

fun split :: "char \<Rightarrow> string \<Rightarrow> string list" where
  "split sep [] = [[]]"
| "split sep (c # cs) =
     (if c = sep then [] # split sep cs
      else (case split sep cs of [] \<Rightarrow> [[c]] | p # ps \<Rightarrow> (c # p) # ps))"

fun join :: "string \<Rightarrow> string list \<Rightarrow> string" where
  "join sep [] = []"
| "join sep [x] = x"
| "join sep (x # y # ys) = x @ sep @ join sep (y # ys)"

text \<open>\<open>s.substring(a, b)\<close>: both ends are clamped to the string and swapped when
  they are out of order.\<close>

definition substring :: "string \<Rightarrow> int \<Rightarrow> int \<Rightarrow> string" where
  "substring s a b =
     (let n = int (length s);
          a' = min (max a 0) n;
          b' = min (max b 0) n
      in take (nat (max a' b' - min a' b')) (drop (nat (min a' b')) s))"

text \<open>\<open>s[i]\<close> for a number \<open>i\<close>.\<close>

definition charAtInt :: "string \<Rightarrow> int \<Rightarrow> char option" where
  "charAtInt s i = (if 0 \<le> i \<and> i < int (length s) then Some (s ! nat i) else None)"

text \<open>\<open>xs.indexOf(v)\<close> on an array of numbers: the first position of \<open>v\<close>, or -1.
  \<open>NaN\<close> is equal to nothing, so it is never found.\<close>

fun indexOfFrom :: "int list \<Rightarrow> int \<Rightarrow> nat \<Rightarrow> int" where
  "indexOfFrom [] v i = - 1"
| "indexOfFrom (x # xs) v i = (if x = v then int i else indexOfFrom xs v (Suc i))"

definition indexOf :: "int list \<Rightarrow> jsnum \<Rightarrow> int" where
  "indexOf xs v = (case v of None \<Rightarrow> - 1 | Some k \<Rightarrow> indexOfFrom xs k 0)"

text \<open>
  A regular expression is modelled by the predicate "the expression matches at
  position \<open>i\<close> of \<open>s\<close>"; \<open>s.search(re)\<close> is the first such position, or -1.
\<close>

definition search :: "(string \<Rightarrow> nat \<Rightarrow> bool) \<Rightarrow> string \<Rightarrow> int" where
  "search re s = (case find (re s) [0..<Suc (length s)] of None \<Rightarrow> - 1 | Some i \<Rightarrow> int i)"

text \<open>The word characters of \<open>\b\<close> are the letters, the digits and the underscore.
  \<open>\b\<close> holds where exactly one of the two neighbours is a word character.\<close>

definition isWordChar :: "char \<Rightarrow> bool" where
  "isWordChar c =
     ((48 \<le> code c \<and> code c \<le> 57) \<or> (65 \<le> code c \<and> code c \<le> 90)
      \<or> (97 \<le> code c \<and> code c \<le> 122) \<or> code c = 95)"

definition wordBoundary :: "string \<Rightarrow> nat \<Rightarrow> bool" where
  "wordBoundary s i =
     ((0 < i \<and> i \<le> length s \<and> isWordChar (s ! (i - 1))) \<noteq> (i < length s \<and> isWordChar (s ! i)))"

text \<open>\<^verbatim>\<open>/\b[BW]\[[^\]]/\<close>: a colour letter at a word boundary, an opening bracket and
  one more character that is not a closing bracket.\<close>

definition reMove :: "string \<Rightarrow> nat \<Rightarrow> bool" where
  "reMove s i =
     (wordBoundary s i \<and> i + 2 < length s
      \<and> (s ! i = CHR ''B'' \<or> s ! i = CHR ''W'')
      \<and> s ! (i + 1) = CHR ''['' \<and> s ! (i + 2) \<noteq> CHR '']'')"

text \<open>\<^verbatim>\<open>/\b[BW]\[tt\]/\<close>.\<close>

definition reMoveTT :: "string \<Rightarrow> nat \<Rightarrow> bool" where
  "reMoveTT s i =
     (wordBoundary s i \<and> i + 4 < length s
      \<and> (s ! i = CHR ''B'' \<or> s ! i = CHR ''W'')
      \<and> s ! (i + 1) = CHR ''['' \<and> s ! (i + 2) = CHR ''t'' \<and> s ! (i + 3) = CHR ''t''
      \<and> s ! (i + 4) = CHR '']'')"

text \<open>\<^verbatim>\<open>/[^\\]\]/\<close>: a character that is not a backslash, then a closing bracket.\<close>

definition reCloseBracket :: "string \<Rightarrow> nat \<Rightarrow> bool" where
  "reCloseBracket s i = (i + 1 < length s \<and> s ! i \<noteq> CHR 0x5C \<and> s ! (i + 1) = CHR '']'')"

text \<open>The dot of a regular expression matches every character but a line terminator.\<close>

definition isLineTerminator :: "char \<Rightarrow> bool" where
  "isLineTerminator c = (code c = 10 \<or> code c = 13)"

text \<open>\<^verbatim>\<open>a.replace(/.*:/, '')\<close>: the first line that has a colon loses everything up to
  its last colon. A match cannot start in a line without a colon, and from the start
  of a line with one the greedy \<^verbatim>\<open>.*\<close> runs to its last colon.\<close>

definition afterLastColon :: "string \<Rightarrow> string" where
  "afterLastColon seg = rev (takeWhile (\<lambda>c. c \<noteq> CHR '':'') (rev seg))"

function removeUpToColon :: "string \<Rightarrow> string" where
  "removeUpToColon s =
     (let seg = takeWhile (\<lambda>c. \<not> isLineTerminator c) s;
          rest = dropWhile (\<lambda>c. \<not> isLineTerminator c) s
      in if CHR '':'' \<in> set seg then afterLastColon seg @ rest
         else (case rest of [] \<Rightarrow> s | t # r \<Rightarrow> seg @ t # removeUpToColon r))"
  by pat_completeness auto
termination
proof (relation "measure length")
  show "wf (measure length)" by simp
next
  fix s seg rest :: string and t r
  assume "rest = dropWhile (\<lambda>c. \<not> isLineTerminator c) s" and "rest = t # r"
  then have "length (t # r) \<le> length s"
    using length_dropWhile_le [of "\<lambda>c. \<not> isLineTerminator c" s] by simp
  then show "(r, s) \<in> measure length" by simp
qed

section \<open>Record text (sgfconv.js)\<close>

definition indexOfRegex :: "string \<Rightarrow> (string \<Rightarrow> nat \<Rightarrow> bool) \<Rightarrow> nat \<Rightarrow> int" where
  "indexOfRegex s re start =
     (let index = search re (drop start s)
      in if 0 \<le> index then index + int start else index)"

text \<open>\<open>addProperty\<close> returns the empty string when the expression is not found.\<close>

definition addProperty :: "string \<Rightarrow> string \<Rightarrow> int \<Rightarrow> string" where
  "addProperty seq mark index =
     (let start = indexOfRegex seq reCloseBracket (nat (max 0 (index - 1)))
      in if start \<noteq> - 1
         then substring seq 0 (start + 2) @ mark @ substring seq (start + 2) (int (length seq))
         else [])"

definition toGoodNode :: "string \<Rightarrow> int \<Rightarrow> string" where
  "toGoodNode seq index = addProperty seq ''TE[1]'' index"

definition toBadNode :: "string \<Rightarrow> int \<Rightarrow> string" where
  "toBadNode seq index = addProperty seq ''BM[1]'' index"

definition toBadHotSpot :: "string \<Rightarrow> int \<Rightarrow> string" where
  "toBadHotSpot seq index = addProperty seq ''BM[1]HO[1]'' index"

text \<open>\<^verbatim>\<open>comment.replace(/\]/g, '\\]')\<close> puts a backslash before every closing bracket.\<close>

definition escapeBrackets :: "string \<Rightarrow> string" where
  "escapeBrackets s = concat (map (\<lambda>c. if c = CHR '']'' then [CHR 0x5C, CHR '']''] else [c]) s)"

definition addComment :: "string \<Rightarrow> string \<Rightarrow> int \<Rightarrow> string" where
  "addComment seq comment index = addProperty seq (''C['' @ escapeBrackets comment @ '']'') index"

text \<open>The comparison \<open>sz < 20\<close> is false for \<open>NaN\<close>.\<close>

definition ltNum :: "jsnum \<Rightarrow> int \<Rightarrow> bool" where
  "ltNum n k = (case n of None \<Rightarrow> False | Some m \<Rightarrow> m < k)"

definition isNotPassingMove :: "string \<Rightarrow> jsnum \<Rightarrow> bool" where
  "isNotPassingMove move sz =
     (if ltNum sz 20
      then search reMove move \<noteq> - 1 \<and> search reMoveTT move = - 1
      else search reMove move \<noteq> - 1)"

text \<open>The parameter \<open>sz\<close> has the default 19; a caller that leaves it out is
  modelled by passing \<open>Some 19\<close>.\<close>

definition hasPassingMoves :: "string \<Rightarrow> jsnum \<Rightarrow> bool" where
  "hasPassingMoves seq sz =
     list_ex (\<lambda>node. \<not> isNotPassingMove node sz) (filter (\<lambda>v. v \<noteq> []) (split CHR '';'' seq))"


section \<open>Engine requests and responses (katagoconv.js)\<close>

text \<open>
  \<open>sgfconv.rootAndSeqFromSGF(sgf)\<close> hands the text to the tokenizer of the package
  \<open>@sabaki/sgf\<close> and returns the root properties and the main line as text. The
  model starts from that result.
\<close>

record rootAndSeq =
  root :: "string \<Rightarrow> string list option"
  seq :: string

text \<open>\<open>(root.AB || [])\<close>.\<close>

definition orEmpty :: "string list option \<Rightarrow> string list" where
  "orEmpty p = (case p of None \<Rightarrow> [] | Some vs \<Rightarrow> vs)"

definition initialStonesFromRoot :: "(string \<Rightarrow> string list option) \<Rightarrow> (string \<times> string) list" where
  "initialStonesFromRoot r =
     map (\<lambda>pos. (''B'', iaToJ1 pos)) (orEmpty (r ''AB''))
     @ map (\<lambda>pos. (''W'', iaToJ1 pos)) (orEmpty (r ''AW''))"

text \<open>A move of the request is the pair of \<open>move[i]\<close> and the coordinate.\<close>

definition seqToKataGoMoves :: "string \<Rightarrow> jsnum \<Rightarrow> (char option \<times> string) list" where
  "seqToKataGoMoves sq sz =
     map (\<lambda>move. let i = search reMove move
                  in (charAtInt move i, iaToJ1 (substring move (i + 2) (i + 4))))
         (filter (\<lambda>move. isNotPassingMove move sz) (split CHR '';'' sq))"

definition getTurnNumber :: "string \<Rightarrow> jsnum" where
  "getTurnNumber a = parseInt (removeUpToColon a)"

definition mergeKataGoResponses :: "string \<Rightarrow> string \<Rightarrow> int list \<Rightarrow> string" where
  "mergeKataGoResponses original revisited turns =
     join [CHR 0x0A]
       (filter (\<lambda>l. indexOf turns (getTurnNumber l) = - 1) (split (CHR 0x0A) original))
     @ revisited"

definition makeRealTurnNumbersMap :: "string \<Rightarrow> int list" where
  "makeRealTurnNumbersMap sq =
     [0] @ filter (\<lambda>v. v \<noteq> - 1)
            (map (\<lambda>(index, move). if isNotPassingMove move (Some 19) then int index + 1 else - 1)
                 (enumerate 0 (filter (\<lambda>v. v \<noteq> []) (split CHR '';'' sq))))"

text \<open>
  The options of the caller and the request. \<open>None\<close> is a field that is not set.
  The komi is a floating-point number, read by \<open>parseFloat\<close>: both are parameters
  of the model. \<open>Date.now()\<close> is the parameter \<open>now\<close>.
\<close>

record 'f analysisOpts =
  komi :: "'f option"
  initialPlayer :: "string option"
  analyzeTurns :: "int list option"

record 'f query = "'f analysisOpts" +
  query_id :: string
  initialStones :: "(string \<times> string) list"
  moves :: "(char option \<times> string) list"

definition headOrUndefined :: "string list \<Rightarrow> string option" where
  "headOrUndefined vs = (case vs of [] \<Rightarrow> None | v # _ \<Rightarrow> Some v)"

definition boardSize :: "(string \<Rightarrow> string list option) \<Rightarrow> jsnum" where
  "boardSize r =
     (case r ''SZ'' of
        None \<Rightarrow> Some 0
      | Some vs \<Rightarrow> (case headOrUndefined vs of None \<Rightarrow> None | Some v \<Rightarrow> parseInt v))"

definition sgfToKataGoAnalysisQuery ::
    "(string option \<Rightarrow> 'f) \<Rightarrow> int \<Rightarrow> rootAndSeq \<Rightarrow> 'f analysisOpts \<Rightarrow> 'f query" where
  "sgfToKataGoAnalysisQuery parseFloat now rs opts =
     (let k = (case root rs ''KM'' of
                 None \<Rightarrow> komi opts
               | Some vs \<Rightarrow> Some (parseFloat (headOrUndefined vs)));
          p = (case root rs ''PL'' of
                 None \<Rightarrow> initialPlayer opts
               | Some vs \<Rightarrow> headOrUndefined vs);
          sz = boardSize (root rs);
          ms = seqToKataGoMoves (seq rs) sz;
          ts = (case analyzeTurns opts of
                  None \<Rightarrow> map int [0..<length ms + 1]
                | Some turns \<Rightarrow>
                    if hasPassingMoves (seq rs) (Some 19)
                    then (let realTurnNumbers = makeRealTurnNumbersMap (seq rs)
                          in filter (\<lambda>turn. turn \<noteq> - 1)
                               (map (\<lambda>turn. indexOf realTurnNumbers (Some turn)) turns))
                    else turns)
      in \<lparr> komi = k, initialPlayer = p, analyzeTurns = Some ts,
           query_id = ''9beach-'' @ intToString now,
           initialStones = initialStonesFromRoot (root rs),
           moves = ms \<rparr>)"

text \<open>
  \<open>winrateDropTurnsFromKataGoResponses\<close> reads one JSON record per line with
  \<open>JSON.parse\<close>; the model starts from the array of the parsed records, in the order
  of the stream. Of a record it uses \<open>turnNumber\<close> and \<open>rootInfo.winrate\<close>. Win
  rates are modelled as rational numbers.
\<close>

record response =
  turnNumber :: int
  winrate :: rat

record acc =
  acc_analyzeTurns :: "int list"
  acc_winrate :: "rat option"
  acc_turnNumber :: "int option"

definition dropStep :: "rat \<Rightarrow> acc \<Rightarrow> response \<Rightarrow> acc" where
  "dropStep winrateDrop a cur =
     (let hit = (case (acc_turnNumber a, acc_winrate a) of
                   (Some t, Some w) \<Rightarrow> t = turnNumber cur - 1 \<and> \<bar>w - winrate cur\<bar> > winrateDrop
                 | _ \<Rightarrow> False)
      in \<lparr> acc_analyzeTurns =
             (if hit then acc_analyzeTurns a @ [the (acc_turnNumber a)] else acc_analyzeTurns a),
           acc_winrate = Some (winrate cur),
           acc_turnNumber = Some (turnNumber cur) \<rparr>)"

definition winrateDropTurnsFromKataGoResponses :: "response list \<Rightarrow> rat \<Rightarrow> int list" where
  "winrateDropTurnsFromKataGoResponses responses winrateDrop =
     acc_analyzeTurns
       (foldl (dropStep winrateDrop)
          \<lparr> acc_analyzeTurns = [], acc_winrate = None, acc_turnNumber = None \<rparr>
          (sort_key turnNumber responses))"

section \<open>Classification of the moves (game-report.js)\<close>

text \<open>
  A drop is the entry of one move. \<open>winrateDrop\<close> and \<open>scoreDrop\<close> are \<open>None\<close> for a
  node that has no value; a comparison with \<open>undefined\<close> is false.
\<close>

record moveDrop =
  index :: nat
  pl :: string
  winrateDrop :: "rat option"
  scoreDrop :: "rat option"

record stat =
  goodmovewinrate :: rat
  badmovewinrate :: rat
  badhotspotwinrate :: rat

definition ltOpt :: "rat option \<Rightarrow> rat \<Rightarrow> bool" where
  "ltOpt x y = (case x of None \<Rightarrow> False | Some v \<Rightarrow> v < y)"

definition geOpt :: "rat option \<Rightarrow> rat \<Rightarrow> bool" where
  "geOpt x y = (case x of None \<Rightarrow> False | Some v \<Rightarrow> y \<le> v)"

text \<open>A number is truthy unless it is absent or zero.\<close>

definition truthy :: "rat option \<Rightarrow> bool" where
  "truthy x = (case x of None \<Rightarrow> False | Some v \<Rightarrow> v \<noteq> 0)"

text \<open>\<open>xs.sort((a, b) => key(b) - key(a))\<close> is a stable sort, largest key first.\<close>

definition sortDescending :: "(moveDrop \<Rightarrow> rat option) \<Rightarrow> moveDrop list \<Rightarrow> moveDrop list" where
  "sortDescending key xs = sort_key (\<lambda>n. - the (key n)) xs"

definition makeGoodBads :: "string \<Rightarrow> moveDrop list \<Rightarrow> stat \<Rightarrow> moveDrop list list" where
  "makeGoodBads p drops st =
     [ filter (\<lambda>n. pl n = p \<and> ltOpt (winrateDrop n) (goodmovewinrate st)) drops,
       filter (\<lambda>n. pl n = p \<and> ltOpt (winrateDrop n) (badmovewinrate st)) drops,
       filter (\<lambda>n. pl n = p \<and> geOpt (winrateDrop n) (badmovewinrate st)) drops,
       filter (\<lambda>n. pl n = p \<and> geOpt (winrateDrop n) (badhotspotwinrate st)) drops,
       take 10 (sortDescending winrateDrop (filter (\<lambda>n. pl n = p \<and> truthy (winrateDrop n)) drops)),
       take 10 (sortDescending scoreDrop (filter (\<lambda>n. pl n = p \<and> truthy (scoreDrop n)) drops)),
       filter (\<lambda>n. pl n = p) drops ]"


section \<open>Notions of the specification\<close>

text \<open>
  A RAW coordinate on a board of size \<open>sz\<close>: two letters, each among the first \<open>sz\<close>
  letters from \<open>a\<close> on.
\<close>

definition validRaw :: "nat \<Rightarrow> string \<Rightarrow> bool" where
  "validRaw sz x = (length x = 2 \<and> (\<forall>c \<in> set x. 97 \<le> code c \<and> code c < 97 + sz))"

text \<open>
  A closing bracket at position \<open>j\<close> of \<open>s\<close> is unescaped when it is not right after
  a backslash. \<open>insertAfter s j mark\<close> is \<open>s\<close> with \<open>mark\<close> put in right after
  position \<open>j\<close>.
\<close>

definition unescapedAt :: "string \<Rightarrow> nat \<Rightarrow> bool" where
  "unescapedAt s j = (j < length s \<and> s ! j = CHR '']'' \<and> (j = 0 \<or> s ! (j - 1) \<noteq> CHR 0x5C))"

definition insertAfter :: "string \<Rightarrow> nat \<Rightarrow> string \<Rightarrow> string" where
  "insertAfter s j mark = take (Suc j) s @ mark @ drop (Suc j) s"

text \<open>
  A response stream is the text of its records, each followed by a line feed. A record
  is kept by a merge when its turn number is not among the given turns; a line
  without a turn number is kept.
\<close>

definition stream :: "string list \<Rightarrow> string" where
  "stream ls = concat (map (\<lambda>l. l @ [CHR 0x0A]) ls)"

definition turnNotIn :: "int list \<Rightarrow> string \<Rightarrow> bool" where
  "turnNotIn turns l = (case getTurnNumber l of None \<Rightarrow> True | Some t \<Rightarrow> t \<notin> set turns)"

section \<open>Characters and decimal numbers\<close>

declare natToString.simps [simp del]

declare removeUpToColon.simps [simp del]

lemma code_fromCode: "n < 256 \<Longrightarrow> code (fromCode n) = n"
  by (simp add: code_def fromCode_def)

lemma fromCode_code: "fromCode (code c) = c"
  by (simp add: code_def fromCode_def)

lemma code_less: "code c < 256"
  by (simp add: code_def)

lemma isDigit_fromCode: "d < 10 \<Longrightarrow> isDigit (fromCode (48 + d))"
  by (simp add: isDigit_def code_fromCode)

lemma natToString_digits: "\<forall>c \<in> set (natToString n). isDigit c"
proof (induction n rule: natToString.induct)
  case (1 n)
  show ?case
  proof (cases "n < 10")
    case True
    then show ?thesis by (subst natToString.simps) (simp add: isDigit_fromCode)
  next
    case False
    then show ?thesis using 1 by (subst natToString.simps) (simp add: isDigit_fromCode)
  qed
qed

lemma natToString_nonempty: "natToString n \<noteq> []"
  by (subst natToString.simps) simp

lemma digitsValue_snoc: "digitsValue (ds @ [c]) = 10 * digitsValue ds + (code c - 48)"
  by (simp add: digitsValue_def)

lemma digitsValue_natToString: "digitsValue (natToString n) = n"
proof (induction n rule: natToString.induct)
  case (1 n)
  show ?case
  proof (cases "n < 10")
    case True
    then show ?thesis
      by (subst natToString.simps) (simp add: digitsValue_def code_fromCode)
  next
    case False
    then have "digitsValue (natToString (n div 10)) = n div 10" using 1 by simp
    with False show ?thesis
      by (subst natToString.simps) (simp add: digitsValue_snoc code_fromCode)
  qed
qed

lemma isDigit_not_space: "isDigit c \<Longrightarrow> \<not> isWhiteSpace c"
  by (auto simp: isDigit_def isWhiteSpace_def)

lemma code_minus: "code CHR ''-'' = 45"
  by (simp add: code_def)

lemma code_plus: "code CHR ''+'' = 43"
  by (simp add: code_def)

lemma isDigit_not_sign: "isDigit c \<Longrightarrow> c \<noteq> CHR ''-'' \<and> c \<noteq> CHR ''+''"
  using code_minus code_plus by (auto simp: isDigit_def)

text \<open>Reading back the decimal form of a number gives the number.\<close>

lemma parseInt_natToString: "parseInt (natToString n) = Some (int n)"
proof -
  obtain c r where cr: "natToString n = c # r"
    using natToString_nonempty by (cases "natToString n") auto
  have dig: "\<forall>d \<in> set (c # r). isDigit d"
    using natToString_digits [of n] cr by simp
  then have c: "isDigit c" by simp
  have t: "dropWhile isWhiteSpace (c # r) = c # r"
    using isDigit_not_space [OF c] by simp
  have ds: "takeWhile isDigit (c # r) = c # r"
    using dig by (simp add: takeWhile_eq_all_conv)
  have "parseInt (c # r) = Some (int (digitsValue (c # r)))"
    unfolding parseInt_def t Let_def using isDigit_not_sign [OF c] ds by simp
  then show ?thesis using digitsValue_natToString [of n] cr by simp
qed

section \<open>Coordinates\<close>

lemma code_I: "code CHR ''I'' = 73"
  by (simp add: code_def)

lemma code_J: "code CHR ''J'' = 74"
  by (simp add: code_def)

lemma iaToJ1_letters:
  assumes a: "97 \<le> code c0" "code c0 \<le> 122" and b: "97 \<le> code c1" "code c1 \<le> 122"
  shows "iaToJ1 [c0, c1] =
           fromCode (if 105 \<le> code c0 then code c0 - 31 else code c0 - 32) # natToString (code c1 - 96)"
proof -
  have n: "nat (int (code c1 - 32) - 64) = code c1 - 96" using b by simp
  have nn: "\<not> int (code c1 - 32) - 64 < 0" using b by simp
  have m: "nat (int (code c0) - 31) = code c0 - 31" "nat (int (code c1) - 96) = code c1 - 96"
    by arith+
  show ?thesis using a b
    by (simp add: iaToJ1_def Let_def toUpperCase_def toUpperChar_def charAt_def geChar_def code_I
        code_fromCode nextChar_def fromCharCode_def charCodeAt_def numToString_def
        intToString_def charOrUndefined_def n nn m)
qed

lemma iaFromJ1_upper:
  assumes "65 \<le> k" "k \<le> 90"
  shows "iaFromJ1 (fromCode k # natToString n) =
           Inr (fromCode (if 74 \<le> k then k + 31 else k + 32) # fromCharCode (Some (int n + 96)))"
proof -
  have m: "nat ((int (k + 32) - 1) mod 65536) = k + 31" using assms
    by (simp add: nat_diff_distrib)
  have p: "prevChar (fromCode (k + 32)) = [fromCode (k + 31)]" using assms m
    by (simp only: prevChar_def fromCharCode_def code_fromCode option.case)
  show ?thesis using assms
    by (simp add: iaFromJ1_def charAt_def geChar_def code_J code_fromCode toLowerChar_def
        p parseInt_natToString)
qed

lemma roundtrip_letters:
  assumes a: "97 \<le> code c0" "code c0 \<le> 121" and b: "97 \<le> code c1" "code c1 \<le> 122"
  shows "iaFromJ1 (iaToJ1 [c0, c1]) = Inr [c0, c1]"
proof -
  let ?k = "if 105 \<le> code c0 then code c0 - 31 else code c0 - 32"
  have k: "65 \<le> ?k" "?k \<le> 90" using a by auto
  have c0: "fromCode (if 74 \<le> ?k then ?k + 31 else ?k + 32) = c0"
    using a fromCode_code [of c0] by (auto split: if_splits)
  have "int (code c1 - 96) + 96 = int (code c1)" using b by simp
  then have c1: "fromCharCode (Some (int (code c1 - 96) + 96)) = [c1]"
    using code_less [of c1] by (simp add: fromCharCode_def fromCode_code)
  have "iaToJ1 [c0, c1] = fromCode ?k # natToString (code c1 - 96)"
    using iaToJ1_letters [of c0 c1] a b by simp
  then show ?thesis using iaFromJ1_upper [OF k, of "code c1 - 96"] c0 c1 by simp
qed

text \<open>
  C1: for every valid RAW coordinate \<open>x\<close> on a board of size at most 25 (two letters
  among the first \<open>sz\<close> letters of the alphabet), converting to the COMPACT form with
  \<open>iaToJ1\<close> and back with \<open>iaFromJ1\<close> returns \<open>x\<close>.
\<close>

theorem iaFromJ1_iaToJ1_roundtrip:
  "sz \<le> 25 \<Longrightarrow> validRaw sz x \<Longrightarrow> iaFromJ1 (iaToJ1 x) = Inr x"
proof -
  assume sz: "sz \<le> 25" and v: "validRaw sz x"
  from v obtain c0 c1 where x: "x = [c0, c1]"
    by (cases x; cases "tl x") (auto simp: validRaw_def)
  from v sz x have "97 \<le> code c0" "code c0 \<le> 121" "97 \<le> code c1" "code c1 \<le> 122"
    by (auto simp: validRaw_def)
  then show ?thesis using x roundtrip_letters by simp
qed

theorem iaFromJ1_iaToJ1_roundtrip_witness:
  "(19::nat) \<le> 25 \<and> validRaw 19 ''ia'' \<and> iaToJ1 ''ia'' = ''J1''
   \<and> iaFromJ1 (iaToJ1 ''ia'') = Inr ''ia''"
proof -
  have v: "validRaw 19 ''ia''" by code_simp
  have t: "iaToJ1 ''ia'' = ''J1''" by code_simp
  show ?thesis using iaFromJ1_iaToJ1_roundtrip [of 19 "''ia''"] v t by simp
qed

text \<open>
  The bound on the size is needed for the first letter: \<open>z\<close>, the 26th letter, becomes
  the character after \<open>Z\<close> and comes back as a capital letter.
\<close>

lemma roundtrip_beyond_board:
  "iaToJ1 ''za'' = ''[1'' \<and> iaFromJ1 (iaToJ1 ''za'') = Inr ''Za''"
  by code_simp

section \<open>Coordinates outside the board\<close>

lemma natToString_inject: "natToString a = natToString b \<Longrightarrow> a = b"
  by (metis digitsValue_natToString)

lemma natToString_no_sign: "natToString a \<noteq> CHR ''-'' # s"
proof
  assume "natToString a = CHR ''-'' # s"
  then have "isDigit CHR ''-''" using natToString_digits [of a] by simp
  then show False using isDigit_not_sign by blast
qed

lemma intToString_inject: "intToString a = intToString b \<Longrightarrow> a = b"
proof -
  assume e: "intToString a = intToString b"
  consider "a < 0" "b < 0" | "a < 0" "0 \<le> b" | "0 \<le> a" "b < 0" | "0 \<le> a" "0 \<le> b"
    by linarith
  then show "a = b"
  proof cases
    case 1
    with e have "nat (- a) = nat (- b)" by (simp add: intToString_def natToString_inject)
    with 1 show ?thesis by simp
  next
    case 2
    with e have "natToString (nat b) = CHR ''-'' # natToString (nat (- a))"
      by (simp add: intToString_def)
    then show ?thesis using natToString_no_sign by blast
  next
    case 3
    with e have "natToString (nat a) = CHR ''-'' # natToString (nat (- b))"
      by (simp add: intToString_def)
    then show ?thesis using natToString_no_sign by blast
  next
    case 4
    with e have "nat a = nat b" by (simp add: intToString_def natToString_inject)
    with 4 show ?thesis by simp
  qed
qed

lemma iaToJ19_letters:
  assumes a: "97 \<le> code c0" "code c0 \<le> 122" and b: "97 \<le> code c1" "code c1 \<le> 122"
  shows "iaToJ19 [c0, c1] =
           fromCode (if 105 \<le> code c0 then code c0 - 31 else code c0 - 32)
             # intToString (116 - int (code c1))"
proof -
  have n: "84 - int (code c1 - 32) = 116 - int (code c1)" using b by simp
  have m: "nat (int (code c0) - 31) = code c0 - 31"
    by arith
  show ?thesis using a b
    by (simp add: iaToJ19_def Let_def toUpperCase_def toUpperChar_def charAt_def geChar_def code_I
        code_fromCode nextChar_def fromCharCode_def charCodeAt_def numToString_def
        charOrUndefined_def n m)
qed

lemma column_inject:
  assumes "97 \<le> code c" "code c \<le> 122" "97 \<le> code d" "code d \<le> 122"
    and "fromCode (if 105 \<le> code c then code c - 31 else code c - 32)
           = fromCode (if 105 \<le> code d then code d - 31 else code d - 32)"
  shows "c = d"
proof -
  let ?k = "\<lambda>c. if 105 \<le> code c then code c - 31 else code c - 32"
  have "code (fromCode (?k c)) = ?k c" "code (fromCode (?k d)) = ?k d"
    using assms(1-4) by (auto intro: code_fromCode)
  with assms(5) have "?k c = ?k d" by metis
  then have "code c = code d" using assms(1-4) by (auto split: if_splits)
  then show ?thesis by (metis fromCode_code)
qed

lemma validRaw_letters:
  assumes "validRaw 26 x"
  obtains c0 c1 where "x = [c0, c1]" "97 \<le> code c0" "code c0 \<le> 122" "97 \<le> code c1" "code c1 \<le> 122"
proof -
  from assms obtain c0 c1 where x: "x = [c0, c1]"
    by (cases x; cases "tl x") (auto simp: validRaw_def)
  with assms have "97 \<le> code c0" "code c0 \<le> 122" "97 \<le> code c1" "code c1 \<le> 122"
    by (auto simp: validRaw_def)
  with x that show ?thesis by blast
qed

lemma iaToJ1_inject:
  assumes "validRaw 26 x" "validRaw 26 y" "iaToJ1 x = iaToJ1 y"
  shows "x = y"
proof -
  from assms(1) obtain c0 c1 where x: "x = [c0, c1]"
      "97 \<le> code c0" "code c0 \<le> 122" "97 \<le> code c1" "code c1 \<le> 122"
    by (rule validRaw_letters)
  from assms(2) obtain d0 d1 where y: "y = [d0, d1]"
      "97 \<le> code d0" "code d0 \<le> 122" "97 \<le> code d1" "code d1 \<le> 122"
    by (rule validRaw_letters)
  from assms(3) have e: "fromCode (if 105 \<le> code c0 then code c0 - 31 else code c0 - 32)
       = fromCode (if 105 \<le> code d0 then code d0 - 31 else code d0 - 32)"
      "natToString (code c1 - 96) = natToString (code d1 - 96)"
    unfolding x(1) y(1) iaToJ1_letters [OF x(2-5)] iaToJ1_letters [OF y(2-5)] by simp_all
  have "c0 = d0" using column_inject [OF x(2,3) y(2,3) e(1)] .
  moreover have "code c1 = code d1"
    using natToString_inject [OF e(2)] x(4) y(4) by simp
  then have "c1 = d1" by (metis fromCode_code)
  ultimately show ?thesis using x(1) y(1) by simp
qed

lemma iaToJ19_inject:
  assumes "validRaw 26 x" "validRaw 26 y" "iaToJ19 x = iaToJ19 y"
  shows "x = y"
proof -
  from assms(1) obtain c0 c1 where x: "x = [c0, c1]"
      "97 \<le> code c0" "code c0 \<le> 122" "97 \<le> code c1" "code c1 \<le> 122"
    by (rule validRaw_letters)
  from assms(2) obtain d0 d1 where y: "y = [d0, d1]"
      "97 \<le> code d0" "code d0 \<le> 122" "97 \<le> code d1" "code d1 \<le> 122"
    by (rule validRaw_letters)
  from assms(3) have e: "fromCode (if 105 \<le> code c0 then code c0 - 31 else code c0 - 32)
       = fromCode (if 105 \<le> code d0 then code d0 - 31 else code d0 - 32)"
      "intToString (116 - int (code c1)) = intToString (116 - int (code d1))"
    unfolding x(1) y(1) iaToJ19_letters [OF x(2-5)] iaToJ19_letters [OF y(2-5)] by simp_all
  have "c0 = d0" using column_inject [OF x(2,3) y(2,3) e(1)] .
  moreover have "code c1 = code d1"
    using intToString_inject [OF e(2)] by simp
  then have "c1 = d1" by (metis fromCode_code)
  ultimately show ?thesis using x(1) y(1) by simp
qed

lemma iaFromJ1_cases: "(iaFromJ1 v = Inl TypeError \<and> v = []) \<or> (\<exists>s. iaFromJ1 v = Inr s \<and> v \<noteq> [])"
  by (cases v) (simp_all add: iaFromJ1_def charAt_def)

text \<open>
  C9, as stated: \<open>zz\<close> is outside every supported board (the letter \<open>z\<close> is the 26th,
  a board has at most 25 lines), and so are the row 26 of \<open>az\<close> in the DISPLAY form and
  the row 99 of \<open>Z99\<close>. The conversions return a string for each of them; nothing is
  raised.
\<close>

theorem conversions_outside_domain_counterexample:
  "\<not> validRaw 25 ''zz''
   \<and> iaToJ1 ''zz'' = ''[26''
   \<and> iaToJ19 ''az'' = ''A-6''
   \<and> iaFromJ1 ''Z99'' = Inr [CHR ''y'', CHR 0xC3]
   \<and> iaFromJ1 ''Z99'' \<noteq> Inl RangeError"
  by code_simp

text \<open>
  C9, amended: the coordinate conversions do not check their input and never raise a
  \<open>RangeError\<close>. \<open>iaToJ1\<close> and \<open>iaToJ19\<close> return a string for every input, and
  \<open>iaFromJ1\<close> returns a string for every input but the empty one, where it raises a
  \<open>TypeError\<close>. An input outside the supported domain is never clamped to the valid
  range either: it goes through the same arithmetic as one inside, so that two
  different pairs of letters from \<open>a\<close> to \<open>z\<close>, on the board or not, never have the
  same COMPACT or DISPLAY form.
\<close>

theorem conversions_do_not_check:
  "iaFromJ1 v \<noteq> Inl RangeError
   \<and> ((iaFromJ1 v = Inl TypeError) = (v = []))
   \<and> ((\<exists>s. iaFromJ1 v = Inr s) = (v \<noteq> []))
   \<and> (validRaw 26 x \<and> validRaw 26 y \<and> iaToJ1 x = iaToJ1 y \<longrightarrow> x = y)
   \<and> (validRaw 26 x \<and> validRaw 26 y \<and> iaToJ19 x = iaToJ19 y \<longrightarrow> x = y)"
  using iaFromJ1_cases [of v] iaToJ1_inject [of x y] iaToJ19_inject [of x y]
  by auto

theorem conversions_do_not_check_witness:
  "validRaw 26 ''zz'' \<and> validRaw 26 ''yz'' \<and> \<not> validRaw 25 ''zz''
   \<and> iaToJ1 ''zz'' \<noteq> iaToJ1 ''yz'' \<and> iaToJ19 ''zz'' \<noteq> iaToJ19 ''yz''
   \<and> iaFromJ1 ''Z99'' \<noteq> Inl RangeError \<and> iaFromJ1 [] = Inl TypeError"
proof -
  have v: "validRaw 26 ''zz''" "validRaw 26 ''yz''" "\<not> validRaw 25 ''zz''" by code_simp+
  have d: "''zz'' \<noteq> ''yz''" by simp
  have "iaToJ1 ''zz'' \<noteq> iaToJ1 ''yz''" "iaToJ19 ''zz'' \<noteq> iaToJ19 ''yz''"
    using conversions_do_not_check [of "''Z99''" "''zz''" "''yz''"] v d by blast+
  moreover have "iaFromJ1 ''Z99'' \<noteq> Inl RangeError"
    using conversions_do_not_check [of "''Z99''" "''zz''" "''yz''"] by blast
  moreover have "iaFromJ1 [] = Inl TypeError"
    using conversions_do_not_check [of "[]" "''zz''" "''yz''"] by blast
  ultimately show ?thesis using v by blast
qed

section \<open>Searching\<close>

lemma search_found: "search re s \<noteq> - 1 \<longleftrightarrow> (\<exists>i \<le> length s. re s i)"
proof -
  have "set [0..<Suc (length s)] = {i. i \<le> length s}" by auto
  then have "find (re s) [0..<Suc (length s)] = None \<longleftrightarrow> \<not> (\<exists>i \<le> length s. re s i)"
    unfolding find_None_iff by blast
  then show ?thesis
    by (auto simp: search_def split: option.splits)
qed

lemma search_not_found: "search re s = - 1 \<longleftrightarrow> (\<forall>i \<le> length s. \<not> re s i)"
  using search_found [of re s] by blast

section \<open>Passing moves\<close>

lemma isWordChar_colour: "c = CHR ''B'' \<or> c = CHR ''W'' \<Longrightarrow> isWordChar c"
  by (auto simp: isWordChar_def code_def)

lemma node_nth_inner:
  assumes "1 \<le> i" "i < Suc (length coord)"
  shows "(c # CHR ''['' # coord @ '']'') ! Suc i \<in> set coord"
proof -
  from assms obtain k where k: "i = Suc k" "k < length coord"
    by (cases i) auto
  then show ?thesis by (simp add: nth_append)
qed

lemma reMove_node:
  assumes c: "c = CHR ''B'' \<or> c = CHR ''W''"
    and nb: "CHR ''['' \<notin> set coord" "CHR '']'' \<notin> set coord"
  shows "reMove (c # CHR ''['' # coord @ '']'') i \<longleftrightarrow> i = 0 \<and> coord \<noteq> []"
proof
  let ?s = "c # CHR ''['' # coord @ '']''"
  assume m: "reMove ?s i"
  have i0: "i = 0"
  proof (rule ccontr)
    assume "i \<noteq> 0"
    then have "1 \<le> i" by simp
    moreover from m have "i < Suc (length coord)" by (simp add: reMove_def)
    ultimately have "?s ! Suc i \<in> set coord" by (rule node_nth_inner)
    moreover from m have "?s ! Suc i = CHR ''[''" by (simp add: reMove_def)
    ultimately show False using nb by simp
  qed
  with m have "?s ! 2 \<noteq> CHR '']''" by (simp add: reMove_def)
  then have "coord \<noteq> []" by (cases coord) (auto simp: numeral_2_eq_2)
  with i0 show "i = 0 \<and> coord \<noteq> []" by simp
next
  assume a: "i = 0 \<and> coord \<noteq> []"
  then obtain x xs where x: "coord = x # xs" by (cases coord) auto
  then have "x \<noteq> CHR '']''" using nb by auto
  then show "reMove (c # CHR ''['' # coord @ '']'') i"
    using a x c isWordChar_colour [OF c]
    by (auto simp: reMove_def wordBoundary_def numeral_2_eq_2)
qed

lemma reMoveTT_node:
  assumes c: "c = CHR ''B'' \<or> c = CHR ''W''"
    and nb: "CHR ''['' \<notin> set coord" "CHR '']'' \<notin> set coord"
  shows "reMoveTT (c # CHR ''['' # coord @ '']'') i \<longleftrightarrow> i = 0 \<and> coord = ''tt''"
proof
  let ?s = "c # CHR ''['' # coord @ '']''"
  assume m: "reMoveTT ?s i"
  have i0: "i = 0"
  proof (rule ccontr)
    assume "i \<noteq> 0"
    then have "1 \<le> i" by simp
    moreover from m have "i < Suc (length coord)" by (simp add: reMoveTT_def)
    ultimately have "?s ! Suc i \<in> set coord" by (rule node_nth_inner)
    moreover from m have "?s ! Suc i = CHR ''[''" by (simp add: reMoveTT_def)
    ultimately show False using nb by simp
  qed
  from m i0 have len: "2 \<le> length coord" by (simp add: reMoveTT_def)
  then obtain x y r where xy: "coord = x # y # r"
    by (cases coord; cases "tl coord") auto
  from m i0 xy have t: "x = CHR ''t''" "y = CHR ''t''" "(r @ '']'') ! 0 = CHR '']''"
    by (simp_all add: reMoveTT_def numeral_2_eq_2 numeral_3_eq_3 eval_nat_numeral)
  have "r = []"
  proof (cases r)
    case (Cons z zs)
    with t(3) have "z = CHR '']''" by simp
    with Cons xy nb show ?thesis by simp
  qed simp
  with t xy i0 show "i = 0 \<and> coord = ''tt''" by simp
next
  assume "i = 0 \<and> coord = ''tt''"
  then show "reMoveTT (c # CHR ''['' # coord @ '']'') i"
    using c isWordChar_colour [OF c]
    by (auto simp: reMoveTT_def wordBoundary_def eval_nat_numeral)
qed

lemma isNotPassingMove_node:
  assumes c: "c = CHR ''B'' \<or> c = CHR ''W''"
    and nb: "CHR ''['' \<notin> set coord" "CHR '']'' \<notin> set coord"
  shows "isNotPassingMove (c # CHR ''['' # coord @ '']'') sz
           \<longleftrightarrow> \<not> (coord = [] \<or> (ltNum sz 20 \<and> coord = ''tt''))"
proof -
  let ?s = "c # CHR ''['' # coord @ '']''"
  have a: "search reMove ?s \<noteq> - 1 \<longleftrightarrow> coord \<noteq> []"
    unfolding search_found reMove_node [OF c nb] by auto
  have b: "search reMoveTT ?s = - 1 \<longleftrightarrow> coord \<noteq> ''tt''"
    unfolding search_not_found reMoveTT_node [OF c nb] by auto
  show ?thesis
    unfolding isNotPassingMove_def using a b by auto
qed

text \<open>
  C3: a move node is a colour letter \<open>B\<close> or \<open>W\<close> followed by its coordinate in
  brackets (a coordinate has no bracket in it). For every move node and every board
  size, \<open>isNotPassingMove\<close> takes the move for a pass exactly when the coordinate is
  empty, or the size is below 20 and the coordinate is \<open>tt\<close>. On size 19, \<open>B[]\<close> and
  \<open>B[tt]\<close> are passes and \<open>B[cc]\<close> is not; on size 25, only \<open>B[]\<close> is a pass.
\<close>

theorem isNotPassingMove_pass_rule:
  assumes "c = CHR ''B'' \<or> c = CHR ''W''"
    and "CHR ''['' \<notin> set coord" and "CHR '']'' \<notin> set coord"
  shows "(\<not> isNotPassingMove (c # CHR ''['' # coord @ '']'') sz
            \<longleftrightarrow> coord = [] \<or> (ltNum sz 20 \<and> coord = ''tt''))
         \<and> \<not> isNotPassingMove ''B[]'' (Some 19)
         \<and> \<not> isNotPassingMove ''B[tt]'' (Some 19)
         \<and> isNotPassingMove ''B[cc]'' (Some 19)
         \<and> \<not> isNotPassingMove ''B[]'' (Some 25)
         \<and> isNotPassingMove ''B[tt]'' (Some 25)
         \<and> isNotPassingMove ''B[cc]'' (Some 25)"
proof -
  have g: "\<not> isNotPassingMove (c # CHR ''['' # coord @ '']'') sz
            \<longleftrightarrow> coord = [] \<or> (ltNum sz 20 \<and> coord = ''tt'')"
    using isNotPassingMove_node [OF assms] by simp
  have e1: "\<not> isNotPassingMove ''B[]'' (Some 19)" by code_simp
  have e2: "\<not> isNotPassingMove ''B[tt]'' (Some 19)" by code_simp
  have e3: "isNotPassingMove ''B[cc]'' (Some 19)" by code_simp
  have e4: "\<not> isNotPassingMove ''B[]'' (Some 25)" by code_simp
  have e5: "isNotPassingMove ''B[tt]'' (Some 25)" by code_simp
  have e6: "isNotPassingMove ''B[cc]'' (Some 25)" by code_simp
  from g e1 e2 e3 e4 e5 e6 show ?thesis by blast
qed

theorem isNotPassingMove_pass_rule_witness:
  "(CHR ''W'' = CHR ''B'' \<or> CHR ''W'' = CHR ''W'')
   \<and> CHR ''['' \<notin> set ''tt'' \<and> CHR '']'' \<notin> set ''tt''
   \<and> \<not> isNotPassingMove ''W[tt]'' (Some 9) \<and> isNotPassingMove ''W[tt]'' (Some 21)"
proof -
  have h: "CHR ''W'' = CHR ''B'' \<or> CHR ''W'' = CHR ''W''"
    "CHR ''['' \<notin> set ''tt''" "CHR '']'' \<notin> set ''tt''"
    by simp_all
  have "\<not> isNotPassingMove ''W[tt]'' (Some 9)"
    using isNotPassingMove_pass_rule [OF h, of "Some 9"] by (simp add: ltNum_def)
  moreover have "isNotPassingMove ''W[tt]'' (Some 21)"
    using isNotPassingMove_pass_rule [OF h, of "Some 21"] by (simp add: ltNum_def)
  ultimately show ?thesis using h by simp
qed

section \<open>Adding a property to a sequence\<close>

lemma search_first:
  assumes "re s i" "i \<le> length s" "\<forall>k<i. \<not> re s k"
  shows "search re s = int i"
proof -
  have "find (re s) [0..<Suc (length s)] = Some i"
    unfolding find_Some_iff
  proof (intro exI [of _ i] conjI allI impI)
    show "i < length [0..<Suc (length s)]" using assms(2) by simp
    show "re s ([0..<Suc (length s)] ! i)" using assms(1,2) by (simp add: nth_upt del: upt_Suc)
    show "i = [0..<Suc (length s)] ! i" using assms(2) by (simp add: nth_upt del: upt_Suc)
    fix j assume "j < i"
    then show "\<not> re s ([0..<Suc (length s)] ! j)"
      using assms(2,3) by (simp add: nth_upt del: upt_Suc)
  qed
  then show ?thesis by (simp add: search_def)
qed

lemma reCloseBracket_drop:
  "reCloseBracket (drop st s) i \<longleftrightarrow> unescapedAt s (Suc (st + i))"
  by (auto simp: reCloseBracket_def unescapedAt_def add.commute)

lemma addProperty_first_bracket:
  assumes st: "st = nat (max 0 (offset - 1))"
    and j: "st < j" "unescapedAt sq j"
    and first: "\<forall>k. st < k \<and> k < j \<longrightarrow> \<not> unescapedAt sq k"
  shows "addProperty sq mark offset = insertAfter sq j mark"
proof -
  obtain i where i: "j = Suc (st + i)"
    using j(1) by (metis add_Suc_right less_iff_Suc_add)
  have len: "j < length sq" using j(2) by (simp add: unescapedAt_def)
  have m: "reCloseBracket (drop st sq) i"
    using j(2) i by (simp add: reCloseBracket_drop)
  have "\<forall>k<i. \<not> reCloseBracket (drop st sq) k"
    using first i by (simp add: reCloseBracket_drop)
  moreover have "i \<le> length (drop st sq)" using len i by simp
  ultimately have s: "search reCloseBracket (drop st sq) = int i"
    using m by (intro search_first) auto
  have idx: "indexOfRegex sq reCloseBracket st = int i + int st"
    by (simp add: indexOfRegex_def s)
  have n: "nat (int i + int st + 2) = Suc j"
    using i by simp
  have a: "substring sq 0 (int i + int st + 2) = take (Suc j) sq"
    using len i n by (simp add: substring_def Let_def min_def max_def)
  have "nat (int (length sq) - (2 + (int i + int st))) = length sq - Suc j"
    using len i by simp
  then have b: "substring sq (int i + int st + 2) (int (length sq)) = drop (Suc j) sq"
    using len i by (simp add: substring_def Let_def min_def max_def nat_add_distrib add.commute)
  show ?thesis
    unfolding addProperty_def st [symmetric] idx Let_def insertAfter_def
    using a b by simp
qed

text \<open>
  C6, as stated, at the offset itself. In \<open>(;W[aa];B[bb];W[cc])\<close> position 6 holds an
  unescaped closing bracket and \<open>max(0, 7 - 1) = 6\<close>, so this bracket is the first one
  at or after the offset; \<open>addProperty\<close> with offset 7 passes over it and inserts
  after the bracket at position 12.
\<close>

theorem addProperty_at_offset_counterexample:
  "unescapedAt ''(;W[aa];B[bb];W[cc])'' 6
   \<and> nat (max 0 (7 - 1)) = 6
   \<and> addProperty ''(;W[aa];B[bb];W[cc])'' ''XX'' 7 = ''(;W[aa];B[bb]XX;W[cc])''
   \<and> insertAfter ''(;W[aa];B[bb];W[cc])'' 6 ''XX'' = ''(;W[aa]XX;B[bb];W[cc])''
   \<and> addProperty ''(;W[aa];B[bb];W[cc])'' ''XX'' 7 \<noteq> insertAfter ''(;W[aa];B[bb];W[cc])'' 6 ''XX''"
  by code_simp

text \<open>
  C6, amended: for every sequence text with a closing bracket strictly after offset
  \<open>max(0, approxOffset - 1)\<close> that is not right after a backslash, \<open>addProperty\<close>
  inserts the property text right after the first such bracket. In particular
  \<open>addProperty("(;W[aa];B[bb];W[cc])", "TE[1]", 0)\<close> is \<open>(;W[aa]TE[1];B[bb];W[cc])\<close>, and
  \<open>addComment\<close> on \<open>(;W[aa];B[bb])\<close> with the text \<open>hey[]\<close> gives
  \<open>(;W[aa]C[hey[\]];B[bb])\<close>, the closing bracket of the comment escaped.
\<close>

theorem addProperty_after_offset:
  "(st = nat (max 0 (offset - 1)) \<and> st < j \<and> unescapedAt sq j
      \<and> (\<forall>k. st < k \<and> k < j \<longrightarrow> \<not> unescapedAt sq k)
      \<longrightarrow> addProperty sq mark offset = insertAfter sq j mark)
   \<and> addProperty ''(;W[aa];B[bb];W[cc])'' ''TE[1]'' 0 = ''(;W[aa]TE[1];B[bb];W[cc])''
   \<and> addComment ''(;W[aa];B[bb])'' ''hey[]'' 0
       = ''(;W[aa]C[hey['' @ [CHR 0x5C] @ '']];B[bb])''"
proof -
  have e1: "addProperty ''(;W[aa];B[bb];W[cc])'' ''TE[1]'' 0 = ''(;W[aa]TE[1];B[bb];W[cc])''"
    by code_simp
  have e2: "addComment ''(;W[aa];B[bb])'' ''hey[]'' 0
       = ''(;W[aa]C[hey['' @ [CHR 0x5C] @ '']];B[bb])''"
    by code_simp
  show ?thesis using addProperty_first_bracket [of st offset j sq mark] e1 e2 by blast
qed

theorem addProperty_after_offset_witness:
  "(6::nat) = nat (max 0 (7 - 1)) \<and> (6::nat) < 12
   \<and> unescapedAt ''(;W[aa];B[bb];W[cc])'' 12
   \<and> list_all (\<lambda>k. \<not> unescapedAt ''(;W[aa];B[bb];W[cc])'' k) [7, 8, 9, 10, 11]
   \<and> addProperty ''(;W[aa];B[bb];W[cc])'' ''XX'' 7 = insertAfter ''(;W[aa];B[bb];W[cc])'' 12 ''XX''
   \<and> insertAfter ''(;W[aa];B[bb];W[cc])'' 12 ''XX'' = ''(;W[aa];B[bb]XX;W[cc])''"
proof -
  let ?s = "''(;W[aa];B[bb];W[cc])''"
  have u: "unescapedAt ?s 12" by code_simp
  have n: "list_all (\<lambda>k. \<not> unescapedAt ?s k) [7, 8, 9, 10, 11]" by code_simp
  have f: "\<forall>k. 6 < k \<and> k < 12 \<longrightarrow> \<not> unescapedAt ?s k"
  proof (intro allI impI)
    fix k :: nat assume "6 < k \<and> k < 12"
    then have "k \<in> set [7, 8, 9, 10, 11]" by (simp; arith)
    with n show "\<not> unescapedAt ?s k" by (auto simp: list_all_iff)
  qed
  have i: "insertAfter ?s 12 ''XX'' = ''(;W[aa];B[bb]XX;W[cc])''" by code_simp
  have "addProperty ?s ''XX'' 7 = insertAfter ?s 12 ''XX''"
    using addProperty_after_offset [of 6 7 12 ?s "''XX''"] u f by simp
  with u n i show ?thesis by simp
qed

section \<open>The map of the real turn numbers\<close>

lemma enumerate_nth: "enumerate 0 xs = map (\<lambda>i. (i, xs ! i)) [0..<length xs]"
  by (rule nth_equalityI) (simp_all add: nth_enumerate_eq)

lemma filter_by_index:
  "map (nth xs) (filter (\<lambda>i. P (xs ! i)) [0..<length xs]) = filter P xs"
proof -
  have "filter P (map (nth xs) [0..<length xs]) =
          map (nth xs) (filter (P \<circ> nth xs) [0..<length xs])"
    by (rule filter_map)
  then show ?thesis by (simp add: map_nth comp_def)
qed

lemma realTurnNumbers_by_index:
  "filter (\<lambda>v. v \<noteq> - 1)
     (map (\<lambda>(index, move). if P move then int index + 1 else - 1) (enumerate 0 xs))
   = map (\<lambda>i. int i + 1) (filter (\<lambda>i. P (xs ! i)) [0..<length xs])"
proof -
  have "filter (\<lambda>v. v \<noteq> - 1)
          (map (\<lambda>i. if P (xs ! i) then int i + 1 else - 1) [0..<length xs])
        = map (\<lambda>i. if P (xs ! i) then int i + 1 else - 1)
            (filter (\<lambda>i. P (xs ! i)) [0..<length xs])"
  proof -
    have "filter ((\<lambda>v. v \<noteq> - 1) \<circ> (\<lambda>i. if P (xs ! i) then int i + 1 else - 1)) [0..<length xs]
          = filter (\<lambda>i. P (xs ! i)) [0..<length xs]"
      by (rule filter_cong) auto
    then show ?thesis by (simp only: filter_map)
  qed
  also have "\<dots> = map (\<lambda>i. int i + 1) (filter (\<lambda>i. P (xs ! i)) [0..<length xs])"
    by (rule map_cong) auto
  finally show ?thesis by (simp add: enumerate_nth comp_def)
qed

lemma makeRealTurnNumbersMap_by_index:
  "makeRealTurnNumbersMap sq =
     0 # map (\<lambda>i. int i + 1)
           (filter (\<lambda>i. isNotPassingMove (filter (\<lambda>v. v \<noteq> []) (split CHR '';'' sq) ! i) (Some 19))
              [0..<length (filter (\<lambda>v. v \<noteq> []) (split CHR '';'' sq))])"
  unfolding makeRealTurnNumbersMap_def realTurnNumbers_by_index by simp

lemma realTurnNumbers_increasing:
  "sorted_wrt (<) (0 # map (\<lambda>i. int i + 1) (filter Q [0..<n]))"
proof -
  have "sorted_wrt (<) (filter Q [0..<n])"
    by (rule sorted_wrt_filter) (simp add: sorted_wrt_upt)
  then have "sorted_wrt (\<lambda>x y. int x + 1 < int y + 1) (filter Q [0..<n])"
    by (rule sorted_wrt_mono_rel [rotated]) simp
  then have "sorted_wrt (<) (map (\<lambda>i. int i + 1) (filter Q [0..<n]))"
    by (simp only: sorted_wrt_map)
  then show ?thesis by auto
qed

lemma makeRealTurnNumbersMap_increasing: "sorted_wrt (<) (makeRealTurnNumbersMap sq)"
  unfolding makeRealTurnNumbersMap_by_index by (rule realTurnNumbers_increasing)

lemma makeRealTurnNumbersMap_length:
  "length (makeRealTurnNumbersMap sq) =
     1 + length (filter (\<lambda>move. isNotPassingMove move (Some 19))
                   (filter (\<lambda>v. v \<noteq> []) (split CHR '';'' sq)))"
proof -
  let ?xs = "filter (\<lambda>v. v \<noteq> []) (split CHR '';'' sq)"
  let ?P = "\<lambda>move. isNotPassingMove move (Some 19)"
  have "length (filter ?P ?xs) = length (filter (\<lambda>i. ?P (?xs ! i)) [0..<length ?xs])"
    using filter_by_index [of ?xs ?P, symmetric] by (simp only: length_map)
  then show ?thesis unfolding makeRealTurnNumbersMap_by_index by simp
qed

text \<open>
  C2: for every sequence, \<open>makeRealTurnNumbersMap\<close> returns a strictly increasing
  list that begins with 0; after the 0 come, in order, the 1-based positions (passes
  counted) of the moves that are not passes, so that its length is 1 plus the number
  of those moves. For \<open>;W[aa];B[];W[bb]\<close> the map is \<open>[0, 1, 3]\<close>: it has length 3,
  it is strictly increasing and its first entry is 0.
\<close>

theorem makeRealTurnNumbersMap_correct:
  "makeRealTurnNumbersMap sq =
     0 # map (\<lambda>i. int i + 1)
           (filter (\<lambda>i. isNotPassingMove (filter (\<lambda>v. v \<noteq> []) (split CHR '';'' sq) ! i) (Some 19))
              [0..<length (filter (\<lambda>v. v \<noteq> []) (split CHR '';'' sq))])
   \<and> sorted_wrt (<) (makeRealTurnNumbersMap sq)
   \<and> makeRealTurnNumbersMap sq ! 0 = 0
   \<and> length (makeRealTurnNumbersMap sq) =
       1 + length (filter (\<lambda>move. isNotPassingMove move (Some 19))
                     (filter (\<lambda>v. v \<noteq> []) (split CHR '';'' sq)))
   \<and> makeRealTurnNumbersMap '';W[aa];B[];W[bb]'' = [0, 1, 3]
   \<and> length (makeRealTurnNumbersMap '';W[aa];B[];W[bb]'') = 3
   \<and> sorted_wrt (<) (makeRealTurnNumbersMap '';W[aa];B[];W[bb]'')
   \<and> makeRealTurnNumbersMap '';W[aa];B[];W[bb]'' ! 0 = 0"
proof -
  have z: "makeRealTurnNumbersMap sq ! 0 = 0"
    by (simp add: makeRealTurnNumbersMap_def)
  have e: "makeRealTurnNumbersMap '';W[aa];B[];W[bb]'' = [0, 1, 3]"
    by code_simp
  have e3: "length (makeRealTurnNumbersMap '';W[aa];B[];W[bb]'') = 3"
    "sorted_wrt (<) (makeRealTurnNumbersMap '';W[aa];B[];W[bb]'')"
    "makeRealTurnNumbersMap '';W[aa];B[];W[bb]'' ! 0 = 0"
    unfolding e by simp_all
  show ?thesis
    using makeRealTurnNumbersMap_by_index [of sq] makeRealTurnNumbersMap_increasing [of sq]
      makeRealTurnNumbersMap_length [of sq] z e e3
    by blast
qed

theorem makeRealTurnNumbersMap_correct_witness:
  "makeRealTurnNumbersMap '';B[dd];W[tt];B[];W[pp]'' = [0, 1, 4]
   \<and> filter (\<lambda>move. isNotPassingMove move (Some 19))
        (filter (\<lambda>v. v \<noteq> []) (split CHR '';'' '';B[dd];W[tt];B[];W[pp]'')) = [''B[dd]'', ''W[pp]'']
   \<and> length (makeRealTurnNumbersMap '';B[dd];W[tt];B[];W[pp]'') = 3"
proof -
  have a: "makeRealTurnNumbersMap '';B[dd];W[tt];B[];W[pp]'' = [0, 1, 4]"
    by code_simp
  have b: "filter (\<lambda>move. isNotPassingMove move (Some 19))
        (filter (\<lambda>v. v \<noteq> []) (split CHR '';'' '';B[dd];W[tt];B[];W[pp]'')) = [''B[dd]'', ''W[pp]'']"
    by code_simp
  have "length (makeRealTurnNumbersMap '';B[dd];W[tt];B[];W[pp]'') =
          1 + length (filter (\<lambda>move. isNotPassingMove move (Some 19))
                        (filter (\<lambda>v. v \<noteq> []) (split CHR '';'' '';B[dd];W[tt];B[];W[pp]'')))"
    using makeRealTurnNumbersMap_correct [of "'';B[dd];W[tt];B[];W[pp]''"] by blast
  then have "length (makeRealTurnNumbersMap '';B[dd];W[tt];B[];W[pp]'') = 3"
    unfolding b by simp
  with a b show ?thesis by blast
qed

section \<open>The turns of a request\<close>

lemma indexOfFrom_range: "indexOfFrom xs v i = - 1 \<or> (int i \<le> indexOfFrom xs v i)"
  by (induction xs arbitrary: i) (auto, force)

lemma indexOfFrom_absent: "indexOfFrom xs v i = - 1 \<longleftrightarrow> v \<notin> set xs"
proof (induction xs arbitrary: i)
  case Nil
  then show ?case by simp
next
  case (Cons x xs)
  then show ?case by auto
qed

lemma indexOfFrom_present:
  "v \<in> set xs \<Longrightarrow> \<exists>k<length xs. indexOfFrom xs v i = int (i + k) \<and> xs ! k = v"
proof (induction xs arbitrary: i)
  case Nil
  then show ?case by simp
next
  case (Cons x xs)
  show ?case
  proof (cases "x = v")
    case True
    then show ?thesis by (intro exI [of _ 0]) simp
  next
    case False
    with Cons.prems have "v \<in> set xs" by simp
    from Cons.IH [OF this, of "Suc i"] obtain k
      where "k < length xs" "indexOfFrom xs v (Suc i) = int (Suc i + k)" "xs ! k = v"
      by blast
    with False show ?thesis by (intro exI [of _ "Suc k"]) simp
  qed
qed

lemma indexOf_present:
  assumes "v \<in> set xs"
  shows "0 \<le> indexOf xs (Some v) \<and> indexOf xs (Some v) < int (length xs)
         \<and> xs ! nat (indexOf xs (Some v)) = v"
  using indexOfFrom_present [OF assms, of 0] by (auto simp: indexOf_def)

lemma indexOf_absent: "indexOf xs (Some v) = - 1 \<longleftrightarrow> v \<notin> set xs"
  by (simp add: indexOf_def indexOfFrom_absent)

text \<open>Looking the turns up in a map and dropping the ones that are not found.\<close>

lemma remap_turns:
  "map (\<lambda>p. m ! nat p) (filter (\<lambda>turn. turn \<noteq> - 1) (map (\<lambda>turn. indexOf m (Some turn)) ts))
     = filter (\<lambda>t. t \<in> set m) ts
   \<and> (\<forall>p \<in> set (filter (\<lambda>turn. turn \<noteq> - 1) (map (\<lambda>turn. indexOf m (Some turn)) ts)).
         0 \<le> p \<and> p < int (length m))"
proof (induction ts)
  case Nil
  then show ?case by simp
next
  case (Cons t ts)
  show ?case
  proof (cases "t \<in> set m")
    case True
    then have "indexOf m (Some t) \<noteq> - 1" by (simp add: indexOf_absent)
    with True Cons indexOf_present [OF True] show ?thesis by simp
  next
    case False
    then have "indexOf m (Some t) = - 1" by (simp add: indexOf_absent)
    with False Cons show ?thesis by simp
  qed
qed

lemma isNotPassingMove_default_rule:
  "isNotPassingMove node (Some 19) \<Longrightarrow> isNotPassingMove node sz"
  by (simp add: isNotPassingMove_def ltNum_def split: if_splits)

lemma hasPassingMoves_default_rule:
  "hasPassingMoves sq sz \<Longrightarrow> hasPassingMoves sq (Some 19)"
  unfolding hasPassingMoves_def list_ex_iff using isNotPassingMove_default_rule by blast

lemma query_moves:
  "moves (sgfToKataGoAnalysisQuery parseFloat now rs opts)
     = seqToKataGoMoves (seq rs) (boardSize (root rs))"
  by (simp add: sgfToKataGoAnalysisQuery_def Let_def)

lemma query_turns_unspecified:
  "analyzeTurns opts = None \<Longrightarrow>
   analyzeTurns (sgfToKataGoAnalysisQuery parseFloat now rs opts)
     = Some (map int [0..<length (seqToKataGoMoves (seq rs) (boardSize (root rs))) + 1])"
  by (simp add: sgfToKataGoAnalysisQuery_def Let_def)

lemma query_turns_remapped:
  "analyzeTurns opts = Some ts \<Longrightarrow> hasPassingMoves (seq rs) (Some 19) \<Longrightarrow>
   analyzeTurns (sgfToKataGoAnalysisQuery parseFloat now rs opts)
     = Some (filter (\<lambda>turn. turn \<noteq> - 1)
              (map (\<lambda>turn. indexOf (makeRealTurnNumbersMap (seq rs)) (Some turn)) ts))"
  by (simp add: sgfToKataGoAnalysisQuery_def Let_def)

text \<open>
  C7: when the caller gives no \<open>analyzeTurns\<close>, the request asks for every turn from
  0 to the number of its moves. When the caller gives \<open>analyzeTurns\<close> and the record
  has a passing move, the request holds, in the caller's order, the position in the
  turn map of every given turn number that occurs in the map (reading the positions
  back through the map gives those turn numbers); the turn numbers that are not in
  the map are left out, and the request is built all the same.
\<close>

theorem sgfToKataGoAnalysisQuery_analyzeTurns:
  "(analyzeTurns opts = None \<longrightarrow>
      analyzeTurns (sgfToKataGoAnalysisQuery parseFloat now rs opts)
        = Some (map int [0..<length (moves (sgfToKataGoAnalysisQuery parseFloat now rs opts)) + 1]))
   \<and> (analyzeTurns opts = Some ts \<and> hasPassingMoves (seq rs) sz \<longrightarrow>
        (\<exists>ps. analyzeTurns (sgfToKataGoAnalysisQuery parseFloat now rs opts) = Some ps
           \<and> map (\<lambda>p. makeRealTurnNumbersMap (seq rs) ! nat p) ps
               = filter (\<lambda>t. t \<in> set (makeRealTurnNumbersMap (seq rs))) ts
           \<and> (\<forall>p \<in> set ps. 0 \<le> p \<and> p < int (length (makeRealTurnNumbersMap (seq rs))))))"
proof (intro conjI impI)
  assume "analyzeTurns opts = None"
  then show "analyzeTurns (sgfToKataGoAnalysisQuery parseFloat now rs opts)
        = Some (map int [0..<length (moves (sgfToKataGoAnalysisQuery parseFloat now rs opts)) + 1])"
    unfolding query_moves by (rule query_turns_unspecified)
next
  assume a: "analyzeTurns opts = Some ts \<and> hasPassingMoves (seq rs) sz"
  then have "hasPassingMoves (seq rs) (Some 19)"
    using hasPassingMoves_default_rule by blast
  with a have "analyzeTurns (sgfToKataGoAnalysisQuery parseFloat now rs opts)
     = Some (filter (\<lambda>turn. turn \<noteq> - 1)
              (map (\<lambda>turn. indexOf (makeRealTurnNumbersMap (seq rs)) (Some turn)) ts))"
    using query_turns_remapped by blast
  then show "\<exists>ps. analyzeTurns (sgfToKataGoAnalysisQuery parseFloat now rs opts) = Some ps
           \<and> map (\<lambda>p. makeRealTurnNumbersMap (seq rs) ! nat p) ps
               = filter (\<lambda>t. t \<in> set (makeRealTurnNumbersMap (seq rs))) ts
           \<and> (\<forall>p \<in> set ps. 0 \<le> p \<and> p < int (length (makeRealTurnNumbersMap (seq rs))))"
    using remap_turns [of "makeRealTurnNumbersMap (seq rs)" ts] by simp
qed

theorem sgfToKataGoAnalysisQuery_analyzeTurns_witness:
  "analyzeTurns \<lparr> komi = None, initialPlayer = None, analyzeTurns = None \<rparr> = None
   \<and> analyzeTurns (sgfToKataGoAnalysisQuery (\<lambda>s. s) 0
        \<lparr> root = Map.empty, seq = '';W[aa];B[];W[bb]'' \<rparr>
        \<lparr> komi = None, initialPlayer = None, analyzeTurns = None \<rparr>) = Some [0, 1, 2]
   \<and> hasPassingMoves '';W[aa];B[];W[bb]'' (Some 19)
   \<and> makeRealTurnNumbersMap '';W[aa];B[];W[bb]'' = [0, 1, 3]
   \<and> analyzeTurns (sgfToKataGoAnalysisQuery (\<lambda>s. s) 0
        \<lparr> root = Map.empty, seq = '';W[aa];B[];W[bb]'' \<rparr>
        \<lparr> komi = None, initialPlayer = None, analyzeTurns = Some [3, 2, 1, 0] \<rparr>) = Some [2, 1, 0]"
proof -
  let ?rs = "\<lparr> root = Map.empty, seq = '';W[aa];B[];W[bb]'' \<rparr>"
  let ?o1 = "\<lparr> komi = None :: string option option, initialPlayer = None, analyzeTurns = None \<rparr>"
  let ?o2 = "\<lparr> komi = None :: string option option, initialPlayer = None,
               analyzeTurns = Some [3, 2, 1, 0] \<rparr>"
  have mv: "seqToKataGoMoves '';W[aa];B[];W[bb]'' (boardSize Map.empty)
              = [(Some CHR ''W'', ''A1''), (Some CHR ''W'', ''B2'')]"
    by code_simp
  have h: "hasPassingMoves '';W[aa];B[];W[bb]'' (Some 19)" by code_simp
  have m: "makeRealTurnNumbersMap '';W[aa];B[];W[bb]'' = [0, 1, 3]" by code_simp
  have a: "analyzeTurns (sgfToKataGoAnalysisQuery (\<lambda>s. s) 0 ?rs ?o1) = Some [0, 1, 2]"
    using sgfToKataGoAnalysisQuery_analyzeTurns [of ?o1 "\<lambda>s. s" 0 ?rs]
    by (simp add: query_moves mv upt_rec)
  obtain ps where ps: "analyzeTurns (sgfToKataGoAnalysisQuery (\<lambda>s. s) 0 ?rs ?o2) = Some ps"
      "map (\<lambda>p. [0, 1, 3 :: int] ! nat p) ps = [3, 1, 0]"
      "\<forall>p \<in> set ps. 0 \<le> p \<and> p < 3"
    using sgfToKataGoAnalysisQuery_analyzeTurns [of ?o2 "\<lambda>s. s" 0 ?rs "[3, 2, 1, 0]" "Some 19"] h m
    by auto
  from ps(2) obtain p1 p2 p3 where l: "ps = [p1, p2, p3]"
    by (cases ps; cases "tl ps"; cases "tl (tl ps)"; cases "tl (tl (tl ps))") auto
  with ps(3) have r: "p1 \<in> {0, 1, 2}" "p2 \<in> {0, 1, 2}" "p3 \<in> {0, 1, 2}" by auto
  from ps(2) l have "[0, 1, 3 :: int] ! nat p1 = 3" "[0, 1, 3 :: int] ! nat p2 = 1"
    "[0, 1, 3 :: int] ! nat p3 = 0" by simp_all
  with r have "p1 = 2" "p2 = 1" "p3 = 0" by auto
  with l ps(1) have b: "analyzeTurns (sgfToKataGoAnalysisQuery (\<lambda>s. s) 0 ?rs ?o2) = Some [2, 1, 0]"
    by simp
  from a b h m show ?thesis by simp
qed

section \<open>The move \<open>tt\<close> on a large board\<close>

lemma length_filter_mono:
  "(\<And>x. x \<in> set xs \<Longrightarrow> P x \<Longrightarrow> Q x) \<Longrightarrow> length (filter P xs) \<le> length (filter Q xs)"
  by (induction xs) auto

lemma length_filter_strict:
  assumes "\<And>x. x \<in> set xs \<Longrightarrow> P x \<Longrightarrow> Q x" and "y \<in> set xs" "Q y" "\<not> P y"
  shows "length (filter P xs) < length (filter Q xs)"
  using assms
proof (induction xs)
  case Nil
  then show ?case by simp
next
  case (Cons x xs)
  show ?case
  proof (cases "y = x")
    case True
    have "length (filter P xs) \<le> length (filter Q xs)"
      using Cons.prems(1) by (intro length_filter_mono) auto
    with True Cons.prems show ?thesis by simp
  next
    case False
    with Cons have "length (filter P xs) < length (filter Q xs)" by auto
    moreover have "P x \<Longrightarrow> Q x" using Cons.prems(1) by simp
    ultimately show ?thesis by auto
  qed
qed

lemma tt_is_move_on_large_board:
  assumes "node = ''B[tt]'' \<or> node = ''W[tt]''" and "\<not> ltNum sz 20"
  shows "isNotPassingMove node sz"
proof -
  have "search reMove ''B[tt]'' = 0" "search reMove ''W[tt]'' = 0" by code_simp+
  with assms show ?thesis by (auto simp: isNotPassingMove_def)
qed

lemma tt_is_pass_by_default:
  assumes "node = ''B[tt]'' \<or> node = ''W[tt]''"
  shows "\<not> isNotPassingMove node (Some 19)"
proof -
  have "\<not> isNotPassingMove ''B[tt]'' (Some 19)" "\<not> isNotPassingMove ''W[tt]'' (Some 19)"
    by code_simp+
  with assms show ?thesis by auto
qed

lemma tt_request_move:
  assumes "node = ''B[tt]'' \<or> node = ''W[tt]''"
  shows "(let i = search reMove node
          in (charAtInt node i, iaToJ1 (substring node (i + 2) (i + 4))))
         = (Some (hd node), ''U20'')"
proof -
  have "(let i = search reMove ''B[tt]''
          in (charAtInt ''B[tt]'' i, iaToJ1 (substring ''B[tt]'' (i + 2) (i + 4))))
         = (Some CHR ''B'', ''U20'')"
    by code_simp
  moreover have "(let i = search reMove ''W[tt]''
          in (charAtInt ''W[tt]'' i, iaToJ1 (substring ''W[tt]'' (i + 2) (i + 4))))
         = (Some CHR ''W'', ''U20'')"
    by code_simp
  ultimately show ?thesis using assms by auto
qed

lemma map_entry_is_move:
  assumes "i < length (filter (\<lambda>v. v \<noteq> []) (split CHR '';'' sq))"
    and "int i + 1 \<in> set (makeRealTurnNumbersMap sq)"
  shows "isNotPassingMove (filter (\<lambda>v. v \<noteq> []) (split CHR '';'' sq) ! i) (Some 19)"
proof -
  from assms(2) have "int i + 1 \<in> (\<lambda>i. int i + 1) `
      {k. k < length (filter (\<lambda>v. v \<noteq> []) (split CHR '';'' sq))
          \<and> isNotPassingMove (filter (\<lambda>v. v \<noteq> []) (split CHR '';'' sq) ! k) (Some 19)}"
    unfolding makeRealTurnNumbersMap_by_index by auto
  then show ?thesis by auto
qed

text \<open>
  C10: take a record whose board size is 20 or more and whose sequence has a move
  node \<open>B[tt]\<close> or \<open>W[tt]\<close>. The request of \<open>sgfToKataGoAnalysisQuery\<close> has this move
  among its moves, as the point \<open>U20\<close>, because the moves are filtered with the size of
  the record. \<open>hasPassingMoves\<close> and \<open>makeRealTurnNumbersMap\<close> are called without the
  size and use the rule of size 19: the record counts as one with passing moves, and
  the turn map has no entry for this move. So the map has at most as many entries as
  the request has moves (one less than the turns of the request), and when the
  caller gives \<open>analyzeTurns\<close>, every turn of the request lies below the number of
  moves: the position after the last move cannot be asked for.
\<close>

theorem sgfToKataGoAnalysisQuery_tt_on_large_board:
  assumes sz: "boardSize (root rs) = Some n" "20 \<le> n"
    and node: "node \<in> set (split CHR '';'' (seq rs))" "node = ''B[tt]'' \<or> node = ''W[tt]''"
  shows "(Some (hd node), ''U20'') \<in> set (moves (sgfToKataGoAnalysisQuery parseFloat now rs opts))
    \<and> hasPassingMoves (seq rs) (Some 19)
    \<and> (\<forall>i < length (filter (\<lambda>v. v \<noteq> []) (split CHR '';'' (seq rs))).
          filter (\<lambda>v. v \<noteq> []) (split CHR '';'' (seq rs)) ! i = node
          \<longrightarrow> int i + 1 \<notin> set (makeRealTurnNumbersMap (seq rs)))
    \<and> length (makeRealTurnNumbersMap (seq rs))
        \<le> length (moves (sgfToKataGoAnalysisQuery parseFloat now rs opts))
    \<and> (analyzeTurns opts = Some ts \<longrightarrow>
         (\<exists>ps. analyzeTurns (sgfToKataGoAnalysisQuery parseFloat now rs opts) = Some ps
            \<and> (\<forall>p \<in> set ps.
                  p < int (length (moves (sgfToKataGoAnalysisQuery parseFloat now rs opts))))))"
proof -
  let ?q = "sgfToKataGoAnalysisQuery parseFloat now rs opts"
  let ?xs = "split CHR '';'' (seq rs)"
  let ?big = "\<lambda>move. isNotPassingMove move (Some n)"
  let ?dflt = "\<lambda>move. isNotPassingMove move (Some 19)"
  have nlt: "\<not> ltNum (Some n) 20" using sz(2) by (simp add: ltNum_def)
  have big: "?big node" using tt_is_move_on_large_board [OF node(2) nlt] .
  have dflt: "\<not> ?dflt node" using tt_is_pass_by_default [OF node(2)] .
  have ne: "node \<noteq> []" using node(2) by auto
  have mv: "moves ?q = seqToKataGoMoves (seq rs) (Some n)"
    by (simp add: query_moves sz(1))
  have "node \<in> set (filter ?big ?xs)" using node(1) big by simp
  then have a: "(Some (hd node), ''U20'') \<in> set (moves ?q)"
    unfolding mv seqToKataGoMoves_def using tt_request_move [OF node(2)] by force
  have b: "hasPassingMoves (seq rs) (Some 19)"
    unfolding hasPassingMoves_def list_ex_iff using node(1) ne dflt by auto
  have c: "\<forall>i < length (filter (\<lambda>v. v \<noteq> []) ?xs).
             filter (\<lambda>v. v \<noteq> []) ?xs ! i = node
             \<longrightarrow> int i + 1 \<notin> set (makeRealTurnNumbersMap (seq rs))"
    using map_entry_is_move [of _ "seq rs"] dflt by auto
  have "length (filter (\<lambda>v. v \<noteq> [] \<and> ?dflt v) ?xs) < length (filter ?big ?xs)"
    using node(1) big dflt
    by (intro length_filter_strict [where y = node]) (auto intro: isNotPassingMove_default_rule)
  then have d: "length (makeRealTurnNumbersMap (seq rs)) \<le> length (moves ?q)"
    unfolding makeRealTurnNumbersMap_length mv seqToKataGoMoves_def by simp
  have e: "analyzeTurns opts = Some ts \<longrightarrow>
             (\<exists>ps. analyzeTurns ?q = Some ps \<and> (\<forall>p \<in> set ps. p < int (length (moves ?q))))"
  proof
    assume t: "analyzeTurns opts = Some ts"
    have "analyzeTurns ?q = Some (filter (\<lambda>turn. turn \<noteq> - 1)
              (map (\<lambda>turn. indexOf (makeRealTurnNumbersMap (seq rs)) (Some turn)) ts))"
      using query_turns_remapped [OF t b] .
    moreover have "\<forall>p \<in> set (filter (\<lambda>turn. turn \<noteq> - 1)
              (map (\<lambda>turn. indexOf (makeRealTurnNumbersMap (seq rs)) (Some turn)) ts)).
              p < int (length (moves ?q))"
      using remap_turns [of "makeRealTurnNumbersMap (seq rs)" ts] d by fastforce
    ultimately show "\<exists>ps. analyzeTurns ?q = Some ps \<and> (\<forall>p \<in> set ps. p < int (length (moves ?q)))"
      by blast
  qed
  from a b c d e show ?thesis by blast
qed

theorem sgfToKataGoAnalysisQuery_tt_on_large_board_witness:
  "boardSize [''SZ'' \<mapsto> [''25'']] = Some 25 \<and> (20::int) \<le> 25
   \<and> ''B[tt]'' \<in> set (split CHR '';'' '';W[aa];B[tt];W[bb]'')
   \<and> moves (sgfToKataGoAnalysisQuery (\<lambda>s. s) 0
        \<lparr> root = [''SZ'' \<mapsto> [''25'']], seq = '';W[aa];B[tt];W[bb]'' \<rparr>
        \<lparr> komi = None, initialPlayer = None, analyzeTurns = Some [0, 1, 2, 3] \<rparr>)
       = [(Some CHR ''W'', ''A1''), (Some CHR ''B'', ''U20''), (Some CHR ''W'', ''B2'')]
   \<and> makeRealTurnNumbersMap '';W[aa];B[tt];W[bb]'' = [0, 1, 3]
   \<and> hasPassingMoves '';W[aa];B[tt];W[bb]'' (Some 19)
   \<and> length (makeRealTurnNumbersMap '';W[aa];B[tt];W[bb]'')
       \<le> length (moves (sgfToKataGoAnalysisQuery (\<lambda>s. s) 0
            \<lparr> root = [''SZ'' \<mapsto> [''25'']], seq = '';W[aa];B[tt];W[bb]'' \<rparr>
            \<lparr> komi = None, initialPlayer = None, analyzeTurns = Some [0, 1, 2, 3] \<rparr>))
   \<and> analyzeTurns (sgfToKataGoAnalysisQuery (\<lambda>s. s) 0
        \<lparr> root = [''SZ'' \<mapsto> [''25'']], seq = '';W[aa];B[tt];W[bb]'' \<rparr>
        \<lparr> komi = None, initialPlayer = None, analyzeTurns = Some [0, 1, 2, 3] \<rparr>)
       = Some [0, 1, 2]"
proof -
  let ?rs = "\<lparr> root = [''SZ'' \<mapsto> [''25'']], seq = '';W[aa];B[tt];W[bb]'' \<rparr>"
  let ?o = "\<lparr> komi = None :: string option option, initialPlayer = None,
              analyzeTurns = Some [0, 1, 2, 3] \<rparr>"
  have s: "boardSize (root ?rs) = Some 25" by code_simp
  have s': "boardSize [''SZ'' \<mapsto> [''25'']] = Some 25" by code_simp
  have n: "''B[tt]'' \<in> set (split CHR '';'' (seq ?rs))" by code_simp
  have n': "''B[tt]'' \<in> set (split CHR '';'' '';W[aa];B[tt];W[bb]'')" by code_simp
  have m: "moves (sgfToKataGoAnalysisQuery (\<lambda>s. s) 0 ?rs ?o)
       = [(Some CHR ''W'', ''A1''), (Some CHR ''B'', ''U20''), (Some CHR ''W'', ''B2'')]"
    by code_simp
  have t: "makeRealTurnNumbersMap '';W[aa];B[tt];W[bb]'' = [0, 1, 3]" by code_simp
  have a: "analyzeTurns (sgfToKataGoAnalysisQuery (\<lambda>s. s) 0 ?rs ?o) = Some [0, 1, 2]"
    by code_simp
  have "hasPassingMoves (seq ?rs) (Some 19)
      \<and> length (makeRealTurnNumbersMap (seq ?rs))
          \<le> length (moves (sgfToKataGoAnalysisQuery (\<lambda>s. s) 0 ?rs ?o))"
    using sgfToKataGoAnalysisQuery_tt_on_large_board
      [of ?rs 25 "''B[tt]''" "\<lambda>s. s" 0 ?o "[0, 1, 2, 3]", OF s _ n] by simp
  with s' n' m t a show ?thesis by simp
qed

section \<open>Merging two response streams\<close>

lemma split_line:
  "sep \<notin> set l \<Longrightarrow> split sep (l @ sep # rest) = l # split sep rest"
  by (induction l) auto

lemma split_stream:
  "\<forall>l \<in> set ls. CHR 0x0A \<notin> set l \<Longrightarrow> split (CHR 0x0A) (stream ls) = ls @ [[]]"
proof (induction ls)
  case Nil
  then show ?case by (simp add: stream_def)
next
  case (Cons l ls)
  then have "split (CHR 0x0A) (stream ls) = ls @ [[]]" by simp
  moreover have "stream (l # ls) = l @ CHR 0x0A # stream ls" by (simp add: stream_def)
  ultimately show ?case using Cons.prems by (simp add: split_line)
qed

lemma join_Cons: "zs \<noteq> [] \<Longrightarrow> join sep (y # zs) = y @ sep @ join sep zs"
  by (cases zs) auto

lemma join_stream: "join [CHR 0x0A] (ys @ [[]]) = stream ys"
proof (induction ys)
  case Nil
  then show ?case by (simp add: stream_def)
next
  case (Cons y ys)
  have "join [CHR 0x0A] (y # (ys @ [[]])) = y @ [CHR 0x0A] @ join [CHR 0x0A] (ys @ [[]])"
    by (rule join_Cons) simp
  with Cons show ?case by (simp add: stream_def)
qed

lemma getTurnNumber_empty: "getTurnNumber [] = None"
  by (simp add: getTurnNumber_def parseInt_def removeUpToColon.simps)

lemma indexOf_turnNotIn: "indexOf turns (getTurnNumber l) = - 1 \<longleftrightarrow> turnNotIn turns l"
  by (cases "getTurnNumber l") (simp_all add: turnNotIn_def indexOf_def indexOfFrom_absent)

lemma mergeKataGoResponses_lines:
  "mergeKataGoResponses original revisited turns
     = join [CHR 0x0A] (filter (turnNotIn turns) (split (CHR 0x0A) original)) @ revisited"
  by (simp add: mergeKataGoResponses_def indexOf_turnNotIn)

lemma mergeKataGoResponses_stream:
  assumes "\<forall>l \<in> set ls. CHR 0x0A \<notin> set l"
  shows "mergeKataGoResponses (stream ls) revisited turns
           = stream (filter (turnNotIn turns) ls) @ revisited"
proof -
  have "turnNotIn turns []" by (simp add: turnNotIn_def getTurnNumber_empty)
  then have "filter (turnNotIn turns) (ls @ [[]]) = filter (turnNotIn turns) ls @ [[]]"
    by simp
  then show ?thesis
    unfolding mergeKataGoResponses_lines split_stream [OF assms] by (simp add: join_stream)
qed

text \<open>
  C5: for every original stream, revisit stream and list of turns,
  \<open>mergeKataGoResponses\<close> returns the lines of the original whose turn number is not
  in the list, in their order and joined by line feeds again, followed by the revisit
  stream as it is; nothing is sorted. When the original is a stream of records, each
  ended by a line feed, the result is the stream of the records that are kept,
  followed by the revisit stream.
\<close>

theorem mergeKataGoResponses_correct:
  "mergeKataGoResponses original revisited turns
     = join [CHR 0x0A] (filter (turnNotIn turns) (split (CHR 0x0A) original)) @ revisited
   \<and> ((\<forall>l \<in> set ls. CHR 0x0A \<notin> set l) \<longrightarrow>
        mergeKataGoResponses (stream ls) revisited turns
          = stream (filter (turnNotIn turns) ls) @ revisited)"
  using mergeKataGoResponses_lines mergeKataGoResponses_stream by blast

theorem mergeKataGoResponses_correct_witness:
  "list_all (\<lambda>l. CHR 0x0A \<notin> set l) [''a:2'', ''b:0'', ''c:1'']
   \<and> filter (turnNotIn [1, 2]) [''a:2'', ''b:0'', ''c:1''] = [''b:0'']
   \<and> mergeKataGoResponses (stream [''a:2'', ''b:0'', ''c:1'']) (stream [''d:2'', ''e:1'']) [1, 2]
       = stream [''b:0'', ''d:2'', ''e:1'']"
proof -
  have n: "list_all (\<lambda>l. CHR 0x0A \<notin> set l) [''a:2'', ''b:0'', ''c:1'']" by code_simp
  then have n': "\<forall>l \<in> set [''a:2'', ''b:0'', ''c:1'']. CHR 0x0A \<notin> set l"
    by (simp only: list_all_iff)
  have f: "filter (turnNotIn [1, 2]) [''a:2'', ''b:0'', ''c:1''] = [''b:0'']" by code_simp
  have "mergeKataGoResponses (stream [''a:2'', ''b:0'', ''c:1'']) (stream [''d:2'', ''e:1'']) [1, 2]
          = stream (filter (turnNotIn [1, 2]) [''a:2'', ''b:0'', ''c:1'']) @ stream [''d:2'', ''e:1'']"
    using mergeKataGoResponses_correct
      [of "stream [''a:2'', ''b:0'', ''c:1'']" "stream [''d:2'', ''e:1'']" "[1, 2]"
          "[''a:2'', ''b:0'', ''c:1'']"] n'
    by blast
  also have "\<dots> = stream [''b:0'', ''d:2'', ''e:1'']"
    unfolding f by (simp add: stream_def)
  finally show ?thesis using n f by blast
qed

section \<open>The turns to revisit\<close>

lemma dropTurns_sorted_example:
  "acc_analyzeTurns
     (foldl (dropStep (10 / 100))
        \<lparr> acc_analyzeTurns = [], acc_winrate = None, acc_turnNumber = None \<rparr>
        [\<lparr> turnNumber = 0, winrate = 50 / 100 \<rparr>, \<lparr> turnNumber = 1, winrate = 55 / 100 \<rparr>,
         \<lparr> turnNumber = 2, winrate = 40 / 100 \<rparr>, \<lparr> turnNumber = 3, winrate = 60 / 100 \<rparr>])
   = [1, 2]"
  by (simp add: dropStep_def)

text \<open>
  C4, as stated: on the records of the turns 0 to 3 with the root win rates 0.50, 0.55,
  0.40 and 0.60 and the threshold 0.10, \<open>winrateDropTurnsFromKataGoResponses\<close> returns
  \<open>[1, 2]\<close> and not \<open>[1]\<close>: the win rate changes by 0.20 between the turns 2 and 3,
  which is more than the threshold as well.
\<close>

theorem winrateDropTurns_example_counterexample:
  "winrateDropTurnsFromKataGoResponses
     [\<lparr> turnNumber = 0, winrate = 50 / 100 \<rparr>, \<lparr> turnNumber = 1, winrate = 55 / 100 \<rparr>,
      \<lparr> turnNumber = 2, winrate = 40 / 100 \<rparr>, \<lparr> turnNumber = 3, winrate = 60 / 100 \<rparr>]
     (10 / 100) = [1, 2]
   \<and> winrateDropTurnsFromKataGoResponses
     [\<lparr> turnNumber = 0, winrate = 50 / 100 \<rparr>, \<lparr> turnNumber = 1, winrate = 55 / 100 \<rparr>,
      \<lparr> turnNumber = 2, winrate = 40 / 100 \<rparr>, \<lparr> turnNumber = 3, winrate = 60 / 100 \<rparr>]
     (10 / 100) \<noteq> [1]"
  by (simp add: winrateDropTurnsFromKataGoResponses_def dropStep_def)

text \<open>
  C4, amended: for the response stream that holds, in any order, the records of the
  turns 0 to 3 with the root win rates 0.50, 0.55, 0.40 and 0.60, and the threshold
  0.10, \<open>winrateDropTurnsFromKataGoResponses\<close> returns exactly the list \<open>[1, 2]\<close>.
\<close>

theorem winrateDropTurns_example:
  assumes "mset responses =
     mset [\<lparr> turnNumber = 0, winrate = 50 / 100 \<rparr>, \<lparr> turnNumber = 1, winrate = 55 / 100 \<rparr>,
           \<lparr> turnNumber = 2, winrate = 40 / 100 \<rparr>, \<lparr> turnNumber = 3, winrate = 60 / 100 \<rparr>]"
  shows "winrateDropTurnsFromKataGoResponses responses (10 / 100) = [1, 2]"
proof -
  let ?ys = "[\<lparr> turnNumber = 0, winrate = 50 / 100 \<rparr>, \<lparr> turnNumber = 1, winrate = 55 / 100 \<rparr>,
           \<lparr> turnNumber = 2, winrate = 40 / 100 \<rparr>, \<lparr> turnNumber = 3, winrate = 60 / 100 \<rparr>]"
  have "set responses = set ?ys" using assms by (rule mset_eq_setD)
  then have "inj_on turnNumber (set responses)" by (simp add: inj_on_def)
  moreover have "sorted (map turnNumber ?ys)" by simp
  ultimately have "sort_key turnNumber responses = ?ys"
    using assms by (intro sort_key_inj_key_eq)
  then show ?thesis
    unfolding winrateDropTurnsFromKataGoResponses_def using dropTurns_sorted_example by simp
qed

theorem winrateDropTurns_example_witness:
  "mset [\<lparr> turnNumber = 2, winrate = 40 / 100 \<rparr>, \<lparr> turnNumber = 0, winrate = 50 / 100 \<rparr>,
         \<lparr> turnNumber = 3, winrate = 60 / 100 \<rparr>, \<lparr> turnNumber = 1, winrate = 55 / 100 \<rparr>]
   = mset [\<lparr> turnNumber = 0, winrate = 50 / 100 \<rparr>, \<lparr> turnNumber = 1, winrate = 55 / 100 \<rparr>,
           \<lparr> turnNumber = 2, winrate = 40 / 100 \<rparr>, \<lparr> turnNumber = 3, winrate = 60 / 100 \<rparr>]
   \<and> winrateDropTurnsFromKataGoResponses
        [\<lparr> turnNumber = 2, winrate = 40 / 100 \<rparr>, \<lparr> turnNumber = 0, winrate = 50 / 100 \<rparr>,
         \<lparr> turnNumber = 3, winrate = 60 / 100 \<rparr>, \<lparr> turnNumber = 1, winrate = 55 / 100 \<rparr>]
        (10 / 100) = [1, 2]"
proof -
  have m: "mset [\<lparr> turnNumber = 2, winrate = 40 / 100 \<rparr>, \<lparr> turnNumber = 0, winrate = 50 / 100 \<rparr>,
         \<lparr> turnNumber = 3, winrate = 60 / 100 \<rparr>, \<lparr> turnNumber = 1, winrate = 55 / 100 \<rparr>]
   = mset [\<lparr> turnNumber = 0, winrate = 50 / 100 \<rparr>, \<lparr> turnNumber = 1, winrate = 55 / 100 \<rparr>,
           \<lparr> turnNumber = 2, winrate = 40 / 100 \<rparr>, \<lparr> turnNumber = 3, winrate = 60 / 100 \<rparr>]"
    by (simp add: add_mset_commute)
  from m winrateDropTurns_example [OF m] show ?thesis by (rule conjI)
qed

section \<open>Good and bad moves\<close>

lemma makeGoodBads_buckets:
  "makeGoodBads p drops st ! 0
     = filter (\<lambda>n. pl n = p \<and> ltOpt (winrateDrop n) (goodmovewinrate st)) drops"
  "makeGoodBads p drops st ! 1
     = filter (\<lambda>n. pl n = p \<and> ltOpt (winrateDrop n) (badmovewinrate st)) drops"
  "makeGoodBads p drops st ! 2
     = filter (\<lambda>n. pl n = p \<and> geOpt (winrateDrop n) (badmovewinrate st)) drops"
  "makeGoodBads p drops st ! 3
     = filter (\<lambda>n. pl n = p \<and> geOpt (winrateDrop n) (badhotspotwinrate st)) drops"
  by (simp_all add: makeGoodBads_def eval_nat_numeral)

lemma good_subset_acceptable:
  assumes "goodmovewinrate st \<le> badmovewinrate st"
  shows "set (makeGoodBads p drops st ! 0) \<subseteq> set (makeGoodBads p drops st ! 1)"
  unfolding makeGoodBads_buckets using assms by (auto simp: ltOpt_def split: option.splits)

lemma hotSpot_subset_bad:
  assumes "badmovewinrate st \<le> badhotspotwinrate st"
  shows "set (makeGoodBads p drops st ! 3) \<subseteq> set (makeGoodBads p drops st ! 2)"
  unfolding makeGoodBads_buckets using assms by (auto simp: geOpt_def split: option.splits)

text \<open>
  C8: the lists 0 to 3 of \<open>makeGoodBads\<close> are the good, the acceptable, the bad and
  the hot-spot moves of a player. A move of the player with the drop \<open>d\<close> is good iff
  \<open>d\<close> is below the ceiling of the good moves, acceptable iff \<open>d\<close> is below the floor
  of the bad moves, bad iff \<open>d\<close> is at least that floor, and a hot spot iff \<open>d\<close> is at
  least the floor of the hot spots. With the ceiling below the floor of the bad moves
  and that floor at most the floor of the hot spots, the good moves are among the
  acceptable ones and the hot spots among the bad ones. A drop of 0.03 with the
  ceiling 0.05 and the floor 0.06 is good and acceptable and not bad; a drop of 0.20 with
  the hot-spot floor 0.15 is bad and a hot spot.
\<close>

theorem makeGoodBads_classification:
  assumes "n \<in> set drops" and "pl n = p" and "winrateDrop n = Some d"
    and "goodmovewinrate st < badmovewinrate st"
    and "badmovewinrate st \<le> badhotspotwinrate st"
  shows "(n \<in> set (makeGoodBads p drops st ! 0) \<longleftrightarrow> d < goodmovewinrate st)
    \<and> (n \<in> set (makeGoodBads p drops st ! 1) \<longleftrightarrow> d < badmovewinrate st)
    \<and> (n \<in> set (makeGoodBads p drops st ! 2) \<longleftrightarrow> badmovewinrate st \<le> d)
    \<and> (n \<in> set (makeGoodBads p drops st ! 3) \<longleftrightarrow> badhotspotwinrate st \<le> d)
    \<and> set (makeGoodBads p drops st ! 0) \<subseteq> set (makeGoodBads p drops st ! 1)
    \<and> set (makeGoodBads p drops st ! 3) \<subseteq> set (makeGoodBads p drops st ! 2)
    \<and> (d = 3 / 100 \<and> goodmovewinrate st = 5 / 100 \<and> badmovewinrate st = 6 / 100 \<longrightarrow>
          n \<in> set (makeGoodBads p drops st ! 0) \<and> n \<in> set (makeGoodBads p drops st ! 1)
          \<and> n \<notin> set (makeGoodBads p drops st ! 2))
    \<and> (d = 20 / 100 \<and> badhotspotwinrate st = 15 / 100 \<longrightarrow>
          n \<in> set (makeGoodBads p drops st ! 2) \<and> n \<in> set (makeGoodBads p drops st ! 3))"
proof -
  have m: "n \<in> set (makeGoodBads p drops st ! 0) \<longleftrightarrow> d < goodmovewinrate st"
    "n \<in> set (makeGoodBads p drops st ! 1) \<longleftrightarrow> d < badmovewinrate st"
    "n \<in> set (makeGoodBads p drops st ! 2) \<longleftrightarrow> badmovewinrate st \<le> d"
    "n \<in> set (makeGoodBads p drops st ! 3) \<longleftrightarrow> badhotspotwinrate st \<le> d"
    unfolding makeGoodBads_buckets using assms(1-3) by (simp_all add: ltOpt_def geOpt_def)
  have s: "set (makeGoodBads p drops st ! 0) \<subseteq> set (makeGoodBads p drops st ! 1)"
    "set (makeGoodBads p drops st ! 3) \<subseteq> set (makeGoodBads p drops st ! 2)"
    using good_subset_acceptable [of st p drops] hotSpot_subset_bad [of st p drops] assms(4,5)
    by simp_all
  have e1: "d = 3 / 100 \<and> goodmovewinrate st = 5 / 100 \<and> badmovewinrate st = 6 / 100 \<longrightarrow>
          n \<in> set (makeGoodBads p drops st ! 0) \<and> n \<in> set (makeGoodBads p drops st ! 1)
          \<and> n \<notin> set (makeGoodBads p drops st ! 2)"
    unfolding m by simp
  have e2: "d = 20 / 100 \<and> badhotspotwinrate st = 15 / 100 \<longrightarrow>
          n \<in> set (makeGoodBads p drops st ! 2) \<and> n \<in> set (makeGoodBads p drops st ! 3)"
    unfolding m using assms(5) by auto
  from m s e1 e2 show ?thesis by blast
qed

theorem makeGoodBads_classification_witness:
  "makeGoodBads ''B''
     [\<lparr> index = 0, pl = ''B'', winrateDrop = Some (3 / 100), scoreDrop = Some 1 \<rparr>,
      \<lparr> index = 1, pl = ''W'', winrateDrop = Some (1 / 100), scoreDrop = Some 0 \<rparr>,
      \<lparr> index = 2, pl = ''B'', winrateDrop = Some (20 / 100), scoreDrop = Some 4 \<rparr>]
     \<lparr> goodmovewinrate = 5 / 100, badmovewinrate = 6 / 100, badhotspotwinrate = 15 / 100 \<rparr> ! 0
   = [\<lparr> index = 0, pl = ''B'', winrateDrop = Some (3 / 100), scoreDrop = Some 1 \<rparr>]
   \<and> \<lparr> index = 2, pl = ''B'', winrateDrop = Some (20 / 100), scoreDrop = Some 4 \<rparr>
       \<in> set (makeGoodBads ''B''
           [\<lparr> index = 0, pl = ''B'', winrateDrop = Some (3 / 100), scoreDrop = Some 1 \<rparr>,
            \<lparr> index = 1, pl = ''W'', winrateDrop = Some (1 / 100), scoreDrop = Some 0 \<rparr>,
            \<lparr> index = 2, pl = ''B'', winrateDrop = Some (20 / 100), scoreDrop = Some 4 \<rparr>]
           \<lparr> goodmovewinrate = 5 / 100, badmovewinrate = 6 / 100, badhotspotwinrate = 15 / 100 \<rparr> ! 3)"
proof -
  let ?a = "\<lparr> index = 0, pl = ''B'', winrateDrop = Some (3 / 100), scoreDrop = Some 1 \<rparr>"
  let ?b = "\<lparr> index = 1, pl = ''W'', winrateDrop = Some (1 / 100), scoreDrop = Some 0 \<rparr>"
  let ?c = "\<lparr> index = 2, pl = ''B'', winrateDrop = Some (20 / 100), scoreDrop = Some 4 \<rparr>"
  let ?st = "\<lparr> goodmovewinrate = 5 / 100, badmovewinrate = 6 / 100, badhotspotwinrate = 15 / 100 \<rparr>"
  have g: "makeGoodBads ''B'' [?a, ?b, ?c] ?st ! 0 = [?a]"
    by (simp add: makeGoodBads_def ltOpt_def)
  have "?c \<in> set (makeGoodBads ''B'' [?a, ?b, ?c] ?st ! 3)"
    using makeGoodBads_classification [of ?c "[?a, ?b, ?c]" "''B''" "20 / 100" ?st]
    by simp
  with g show ?thesis by (rule conjI)
qed

end
